theory Spec2Isabelle
  imports Complex_Main "HOL-Library.Sublist" "HOL-Library.Word"
begin

section \<open>Strings\<close>

text \<open>
  A Python \<open>str\<close> is modelled as a \<open>string\<close> of ASCII characters. \<open>str.lower()\<close> maps
  the letters \<open>A\<close> to \<open>Z\<close> to \<open>a\<close> to \<open>z\<close> and leaves every other character alone; the
  case mapping of characters beyond ASCII is not modelled.
\<close>

definition lower_char :: "char \<Rightarrow> char" where
  "lower_char c =
     (case map_of (zip ''ABCDEFGHIJKLMNOPQRSTUVWXYZ'' ''abcdefghijklmnopqrstuvwxyz'') c of
        Some l \<Rightarrow> l
      | None \<Rightarrow> c)"

definition lower :: "string \<Rightarrow> string" where
  "lower s = map lower_char s"

text \<open>\<open>w in s\<close> on strings: \<open>w\<close> occurs in \<open>s\<close> as a contiguous run of characters.\<close>

definition str_in :: "string \<Rightarrow> string \<Rightarrow> bool" where
  "str_in w s = sublist w s"

text \<open>\<open>str(n)\<close> for a length: the decimal digits of a natural number.\<close>

fun str_nat :: "nat \<Rightarrow> string" where
  "str_nat n =
     (if n < 10 then [''0123456789'' ! n]
      else str_nat (n div 10) @ [''0123456789'' ! (n mod 10)])"

section \<open>config.py\<close>

definition ANOMALY_PROMPT :: string where
  "ANOMALY_PROMPT =
     ''Describe what you see in this image and Be more specific about the objects, person, color of any objects it can be cars, person shirt''"

definition ALERT_KEYWORDS :: "string list" where
  "ALERT_KEYWORDS =
     [''intruder'', ''fire'', ''smoke'', ''fallen'', ''violence'', ''theft'', ''suspicious'',
      ''danger'', ''emergency'', ''unusual'', ''abnormal'', ''alert'', ''warning'', ''person'',
      ''breaking'', ''weapon'', ''fight'', ''accident'']"

section \<open>anomaly\_detector.py\<close>

text \<open>
  The exceptions, all derived from \<open>Exception\<close> (so \<open>except Exception\<close> catches each of
  them): a failure of a remote call, carrying the text that \<open>str(e)\<close> gives, \<open>queue.Full\<close>,
  \<open>queue.Empty\<close>, and \<open>cv2.error\<close>.
\<close>

datatype exn = Exception string | Full | Empty | CvError string

fun str_exn :: "exn \<Rightarrow> string" where
  "str_exn (Exception m) = m"
| "str_exn Full = []"
| "str_exn Empty = []"
| "str_exn (CvError m) = m"

text \<open>
  The dictionary returned by the detection endpoint. Only its key \<open>objects\<close> is read, so
  the model keeps the entries whose value is a list of detected objects; \<open>'o\<close> is the type
  of one detected object.
\<close>

type_synonym 'o detection_result = "string \<rightharpoonup> 'o list"

text \<open>
  The two remote calls of \<open>MoondreamClient\<close>. Each one returns its answer or raises; \<open>'f\<close>
  is the type of a frame.
\<close>

record ('f, 'o) moondream_client =
  analyze_frame :: "'f \<Rightarrow> string \<Rightarrow> exn + string"
  detect_objects :: "'f \<Rightarrow> exn + 'o detection_result"

record ('f, 'o) anomaly_detector =
  client :: "('f, 'o) moondream_client"
  prompt :: string
  alert_keywords :: "string list"

definition AnomalyDetector :: "('f, 'o) moondream_client \<Rightarrow> ('f, 'o) anomaly_detector" where
  "AnomalyDetector moondream_client =
     \<lparr> client = moondream_client,
       prompt = ANOMALY_PROMPT,
       alert_keywords = map lower ALERT_KEYWORDS \<rparr>"

definition human_words :: "string list" where
  "human_words =
     [''man'', ''woman'', ''person'', ''people'', ''human'', ''individual'', ''male'', ''female'',
      ''guy'', ''lady'', ''gentleman'', ''boy'', ''girl'', ''child'', ''adult'']"

text \<open>
  The text that \<open>_check_for_anomaly\<close> matches against: the lower-cased description, with
  \<open>" person"\<close> appended when a human word occurs in it and \<open>person\<close> does not.
\<close>

definition desc_lower :: "string \<Rightarrow> string" where
  "desc_lower description =
     (let d = lower description;
          human_found = list_ex (\<lambda>word. str_in word d) human_words
      in if human_found \<and> \<not> str_in ''person'' d then d @ '' person'' else d)"

definition check_for_anomaly :: "('f, 'o) anomaly_detector \<Rightarrow> string \<Rightarrow> bool" where
  "check_for_anomaly self description =
     (let d = desc_lower description
      in if str_in ''no anomaly'' d \<or> str_in ''nothing unusual'' d then False
         else if str_in ''appears normal'' d \<or> str_in ''everything looks normal'' d then False
         else list_ex (\<lambda>keyword. str_in keyword d) (alert_keywords self))"

text \<open>The result dictionary of \<open>analyze\<close>; the error result has no key \<open>detection_result\<close>.\<close>

record 'o result =
  timestamp :: real
  description :: string
  is_anomaly :: bool
  confidence :: string
  persons_detected :: bool
  detected_objects :: "'o list"
  detection_result :: "'o detection_result option"

text \<open>The calls made to the client, in order.\<close>

datatype call = AnalyzeFrame | DetectObjects

text \<open>\<open>detection_result.get("objects", [])\<close>\<close>

definition get_objects :: "'o detection_result \<Rightarrow> 'o list" where
  "get_objects d = (case d ''objects'' of None \<Rightarrow> [] | Some v \<Rightarrow> v)"

text \<open>
  The body of the \<open>try\<close> block of \<open>analyze\<close>: it returns the result or the exception that
  left the block, together with the client calls made.
\<close>

definition analyze_try ::
  "('f, 'o) anomaly_detector \<Rightarrow> real \<Rightarrow> 'f \<Rightarrow> (exn + 'o result) \<times> call list" where
  "analyze_try self ts frame =
     (case analyze_frame (client self) frame (prompt self) of
        Inl e \<Rightarrow> (Inl e, [AnalyzeFrame])
      | Inr desc \<Rightarrow>
          let keywords_found = check_for_anomaly self desc
          in if keywords_found then
               (case detect_objects (client self) frame of
                  Inl e \<Rightarrow> (Inl e, [AnalyzeFrame, DetectObjects])
                | Inr dr \<Rightarrow>
                    let objs = get_objects dr;
                        person_detected = (length objs > 0);
                        desc' = (if person_detected
                                 then desc @ '' [PERSON DETECTED: '' @ str_nat (length objs)
                                        @ '' person(s) found]''
                                 else desc);
                        anomaly = (keywords_found \<and> person_detected)
                    in (Inr \<lparr> timestamp = ts, description = desc', is_anomaly = anomaly,
                              confidence = (if anomaly then ''high'' else ''normal''),
                              persons_detected = person_detected,
                              detected_objects = objs,
                              detection_result = Some dr \<rparr>,
                        [AnalyzeFrame, DetectObjects]))
             else
               (let anomaly = (keywords_found \<and> False)
                in (Inr \<lparr> timestamp = ts, description = desc, is_anomaly = anomaly,
                          confidence = (if anomaly then ''high'' else ''normal''),
                          persons_detected = False,
                          detected_objects = [],
                          detection_result = Some Map.empty \<rparr>,
                    [AnalyzeFrame])))"

text \<open>\<open>analyze\<close>: the \<open>try\<close> block with its \<open>except Exception\<close> handler.\<close>

definition analyze :: "('f, 'o) anomaly_detector \<Rightarrow> real \<Rightarrow> 'f \<Rightarrow> 'o result \<times> call list" where
  "analyze self ts frame =
     (case analyze_try self ts frame of
        (Inr r, calls) \<Rightarrow> (r, calls)
      | (Inl e, calls) \<Rightarrow>
          (\<lparr> timestamp = ts, description = ''Error: '' @ str_exn e, is_anomaly = False,
             confidence = ''error'', persons_detected = False, detected_objects = [],
             detection_result = None \<rparr>,
           calls))"

section \<open>Images and the OpenCV calls of the motion check\<close>

text \<open>
  A grey-scale image is a list of rows of 8-bit pixels. \<open>cv2.absdiff\<close> takes the absolute
  difference pixel by pixel and raises \<open>cv2.error\<close> when the two images differ in shape.
\<close>

type_synonym gray = "8 word list list"

definition absdiff_pixel :: "8 word \<Rightarrow> 8 word \<Rightarrow> 8 word" where
  "absdiff_pixel a b = (if a \<le> b then b - a else a - b)"

definition absdiff :: "gray \<Rightarrow> gray \<Rightarrow> exn + gray" where
  "absdiff a b =
     (if map length a = map length b
      then Inr (map2 (map2 absdiff_pixel) a b)
      else Inl (CvError ''Sizes of input arguments do not match''))"

text \<open>\<open>cv2.threshold(src, thresh, maxval, cv2.THRESH_BINARY)[1]\<close>\<close>

definition threshold :: "gray \<Rightarrow> int \<Rightarrow> 8 word \<Rightarrow> gray" where
  "threshold src thresh maxval =
     map (map (\<lambda>p. if uint p > thresh then maxval else 0)) src"

text \<open>The image of the same shape in which every pixel is zero.\<close>

definition blank :: "gray \<Rightarrow> gray" where
  "blank img = map (map (\<lambda>p. 0)) img"

text \<open>
  A contour is a list of points \<open>(x, y)\<close>, \<open>x\<close> the column and \<open>y\<close> the row of a pixel.
  \<open>cv2.contourArea\<close> is the area of the polygon through the points of the contour, by
  Green's formula as OpenCV computes it: it adds the cross products of each point with its
  predecessor, starting from the last point, halves the sum and takes the absolute value.
  The points have integer coordinates, so the area is a multiple of one half and the
  floating-point sum is exact; areas and times are real numbers in the model.
\<close>

type_synonym contour = "(int \<times> int) list"

fun cross_sum :: "int \<times> int \<Rightarrow> contour \<Rightarrow> int" where
  "cross_sum prev [] = 0"
| "cross_sum prev (p # ps) = (fst prev * snd p - snd prev * fst p) + cross_sum p ps"

definition contourArea :: "contour \<Rightarrow> real" where
  "contourArea c = (if c = [] then 0 else \<bar>real_of_int (cross_sum (last c) c)\<bar> / 2)"

text \<open>
  The two OpenCV functions that stay parameters of the model: the conversion of a frame to
  grey scale, and \<open>cv2.findContours\<close> with \<open>RETR_EXTERNAL\<close> and \<open>CHAIN_APPROX_SIMPLE\<close>, the
  outer contours of the connected regions of non-zero pixels. They are not part of the
  repository.
\<close>

record 'f cv2 =
  cvtColor :: "'f \<Rightarrow> gray"
  findContours :: "gray \<Rightarrow> contour list"

text \<open>
  What is known of \<open>cv2.findContours\<close> here: in an image without a non-zero pixel it finds
  nothing, and when the non-zero pixels fill exactly the block of columns \<open>x0\<close> to \<open>x1\<close> and
  rows \<open>y0\<close> to \<open>y1\<close>, at least two pixels wide and high, it returns the one contour
  through the four corner pixels of the block, from the top left corner downwards.
\<close>

definition is_block :: "gray \<Rightarrow> nat \<Rightarrow> nat \<Rightarrow> nat \<Rightarrow> nat \<Rightarrow> bool" where
  "is_block img x0 y0 x1 y1 =
     (x0 < x1 \<and> y0 < y1 \<and> y1 < length img \<and> list_all (\<lambda>row. x1 < length row) img
      \<and> list_all
           (\<lambda>(i, row). list_all
              (\<lambda>(j, p). (p \<noteq> 0) = (y0 \<le> i \<and> i \<le> y1 \<and> x0 \<le> j \<and> j \<le> x1))
              (enumerate 0 row))
           (enumerate 0 img))"

definition block_contour :: "nat \<Rightarrow> nat \<Rightarrow> nat \<Rightarrow> nat \<Rightarrow> contour" where
  "block_contour x0 y0 x1 y1 =
     [(int x0, int y0), (int x0, int y1), (int x1, int y1), (int x1, int y0)]"

text \<open>
  The total area of the regions of above-threshold pixels as the specification words it:
  every such pixel lies in exactly one connected region, so the total is the number of
  non-zero pixels of the thresholded image.
\<close>

definition spec_region_area :: "gray \<Rightarrow> nat" where
  "spec_region_area img = length (filter (\<lambda>p. p \<noteq> 0) (concat img))"

section \<open>queue.Queue\<close>

text \<open>
  The standard library's bounded FIFO queue. \<open>put_nowait\<close> raises \<open>Full\<close> when \<open>maxsize\<close>
  is positive and the queue already holds that many items; \<open>get\<close> with a timeout raises
  \<open>Empty\<close> when no item arrives in time.
\<close>

record 'a queue =
  maxsize :: int
  items :: "'a list"

definition Queue :: "int \<Rightarrow> 'a queue" where
  "Queue n = \<lparr> maxsize = n, items = [] \<rparr>"

definition put_nowait :: "'a queue \<Rightarrow> 'a \<Rightarrow> exn + 'a queue" where
  "put_nowait q x =
     (if 0 < maxsize q \<and> maxsize q \<le> int (length (items q)) then Inl Full
      else Inr (q\<lparr>items := items q @ [x]\<rparr>))"

definition queue_get :: "'a queue \<Rightarrow> exn + ('a \<times> 'a queue)" where
  "queue_get q =
     (case items q of
        [] \<Rightarrow> Inl Empty
      | x # xs \<Rightarrow> Inr (x, q\<lparr>items := xs\<rparr>))"

section \<open>camera.py\<close>

text \<open>
  \<open>cap\<close> is \<open>None\<close> before \<open>start\<close>; afterwards it holds the capture object, of which the
  model keeps what \<open>isOpened()\<close> answers.
\<close>

record camera_obj =
  camera_index :: int
  cap :: "bool option"

definition Camera :: "int \<Rightarrow> camera_obj" where
  "Camera idx = \<lparr> camera_index = idx, cap = None \<rparr>"

text \<open>\<open>Camera.start\<close>; \<open>device_opens\<close> says whether the device opens.\<close>

definition camera_start :: "bool \<Rightarrow> camera_obj \<Rightarrow> bool \<times> camera_obj" where
  "camera_start device_opens cam =
     (let cam' = cam\<lparr>cap := Some device_opens\<rparr>
      in if \<not> device_opens then (False, cam') else (True, cam'))"

text \<open>\<open>Camera.capture_frame\<close>; \<open>rd\<close> is what \<open>cap.read()\<close> delivers, \<open>None\<close> when it fails.\<close>

definition capture_frame :: "camera_obj \<Rightarrow> 'f option \<Rightarrow> 'f option" where
  "capture_frame cam rd =
     (case cap cam of
        None \<Rightarrow> None
      | Some opened \<Rightarrow> if \<not> opened then None else rd)"

definition camera_stop :: "camera_obj \<Rightarrow> camera_obj" where
  "camera_stop cam = (case cap cam of None \<Rightarrow> cam | Some _ \<Rightarrow> cam\<lparr>cap := Some False\<rparr>)"

section \<open>surveillance.py\<close>

text \<open>
  What \<open>start\<close>, \<open>_run_loop\<close> and \<open>stop\<close> do, recorded in order: the calls they make, the
  time stamp of each frame that \<open>put_nowait\<close> accepted, and each warning that the queue was
  full.
\<close>

datatype action =
  CameraStart | SetupSignalHandlers | ThreadStart | RunLoop | CaptureFrame | Queued real
  | QueueFullWarning | Stop

text \<open>
  The fields of \<open>SurveillanceSystem\<close>. \<open>analysis_thread\<close> is \<open>None\<close> until the worker thread
  is created and started. \<open>alerts\<close> holds the results handed to the alert handler, and
  \<open>trace\<close> is the record of calls, which the program itself does not keep. The
  constructor takes the client already built and the camera index already chosen.
\<close>

record ('f, 'o) surveillance_system =
  camera :: camera_obj
  detector :: "('f, 'o) anomaly_detector"
  alerts :: "'o result list"
  show_preview :: bool
  running :: bool
  frame_count :: nat
  anomaly_count :: nat
  analysis_queue :: "('f \<times> real) queue"
  analysis_thread :: "unit option"
  last_analysis_time :: real
  previous_frame :: "gray option"
  motion_threshold :: int
  min_motion_area :: int
  motion_frames_skipped :: nat
  trace :: "action list"

definition SurveillanceSystem ::
  "('f, 'o) moondream_client \<Rightarrow> int \<Rightarrow> bool \<Rightarrow> ('f, 'o) surveillance_system" where
  "SurveillanceSystem moondream idx preview =
     \<lparr> camera = Camera idx,
       detector = AnomalyDetector moondream,
       alerts = [],
       show_preview = preview,
       running = False,
       frame_count = 0,
       anomaly_count = 0,
       analysis_queue = Queue 10,
       analysis_thread = None,
       last_analysis_time = 0,
       previous_frame = None,
       motion_threshold = 25,
       min_motion_area = 500,
       motion_frames_skipped = 0,
       trace = [] \<rparr>"

text \<open>\<open>_detect_motion\<close>: the verdict and the updated object, or the exception raised.\<close>

definition detect_motion ::
  "'f cv2 \<Rightarrow> ('f, 'o) surveillance_system \<Rightarrow> 'f \<Rightarrow> exn + bool \<times> ('f, 'o) surveillance_system" where
  "detect_motion cv self frame =
     (case previous_frame self of
        None \<Rightarrow> Inr (True, self\<lparr>previous_frame := Some (cvtColor cv frame)\<rparr>)
      | Some prev \<Rightarrow>
          let current_gray = cvtColor cv frame
          in case absdiff prev current_gray of
               Inl e \<Rightarrow> Inl e
             | Inr diff \<Rightarrow>
                 let thresh = threshold diff (motion_threshold self) 255;
                     contours = findContours cv thresh;
                     motion_area = sum_list (map contourArea contours);
                     self' = self\<lparr>previous_frame := Some current_gray\<rparr>
                 in Inr (real_of_int (min_motion_area self) < motion_area, self'))"

text \<open>The condition under which \<open>_run_loop\<close> tries to queue the frame.\<close>

definition should_queue :: "real \<Rightarrow> ('f, 'o) surveillance_system \<Rightarrow> bool \<Rightarrow> real \<Rightarrow> bool" where
  "should_queue FRAME_INTERVAL self has_motion current_time =
     (has_motion \<and> FRAME_INTERVAL \<le> current_time - last_analysis_time self)"

text \<open>
  The queueing step of \<open>_run_loop\<close>: the \<open>if\<close> with its \<open>try\<close> around \<open>put_nowait\<close>, and the
  \<open>elif\<close> that counts the frames without motion.
\<close>

definition queue_frame ::
  "real \<Rightarrow> ('f, 'o) surveillance_system \<Rightarrow> 'f \<Rightarrow> real \<Rightarrow> bool \<Rightarrow> ('f, 'o) surveillance_system" where
  "queue_frame FRAME_INTERVAL self frame current_time has_motion =
     (if should_queue FRAME_INTERVAL self has_motion current_time then
        (case put_nowait (analysis_queue self) (frame, current_time) of
           Inr q \<Rightarrow>
             self\<lparr>analysis_queue := q,
                  last_analysis_time := current_time,
                  frame_count := frame_count self + 1,
                  motion_frames_skipped := 0,
                  trace := trace self @ [Queued current_time]\<rparr>
         | Inl e \<Rightarrow> self\<lparr>trace := trace self @ [QueueFullWarning]\<rparr>)
      else if \<not> has_motion then
        self\<lparr>motion_frames_skipped := motion_frames_skipped self + 1\<rparr>
      else self)"

text \<open>
  What one iteration of \<open>_run_loop\<close> receives from outside: the result of \<open>cap.read()\<close>, the
  value of \<open>time.time()\<close>, and whether the key \<open>q\<close> was pressed in the preview window.
\<close>

record 'f tick =
  frame_read :: "'f option"
  time_now :: real
  key_q :: bool

text \<open>
  One iteration of the \<open>while\<close> loop of \<open>_run_loop\<close>: the exception that leaves it, if any,
  and the object as the iteration leaves it.
\<close>

definition loop_body ::
  "'f cv2 \<Rightarrow> real \<Rightarrow> ('f, 'o) surveillance_system \<Rightarrow> 'f tick
     \<Rightarrow> exn option \<times> ('f, 'o) surveillance_system" where
  "loop_body cv FRAME_INTERVAL self t =
     (let self0 = self\<lparr>trace := trace self @ [CaptureFrame]\<rparr>
      in case capture_frame (camera self0) (frame_read t) of
           None \<Rightarrow> (None, self0)
         | Some frame \<Rightarrow>
             let current_time = time_now t
             in case detect_motion cv self0 frame of
                  Inl e \<Rightarrow> (Some e, self0)
                | Inr (has_motion, self1) \<Rightarrow>
                    let self2 = queue_frame FRAME_INTERVAL self1 frame current_time has_motion
                    in (None, if show_preview self2 \<and> key_q t
                              then self2\<lparr>running := False\<rparr> else self2))"

text \<open>
  One iteration of the \<open>while\<close> loop of \<open>_analysis_worker\<close>; \<open>ts\<close> is the time stamp that
  \<open>analyze\<close> takes. An empty queue raises \<open>Empty\<close> after the timeout, and the loop continues.
  Of \<open>handle_alert\<close> the model keeps that the result is added to the alerts; the files it
  writes are outside the model.
\<close>

definition analysis_worker_body ::
  "('f, 'o) surveillance_system \<Rightarrow> real \<Rightarrow> ('f, 'o) surveillance_system" where
  "analysis_worker_body self ts =
     (case queue_get (analysis_queue self) of
        Inl e \<Rightarrow> self
      | Inr ((frame, tstamp), q) \<Rightarrow>
          let self1 = self\<lparr>analysis_queue := q\<rparr>;
              res = fst (analyze (detector self1) ts frame)
          in if is_anomaly res
             then self1\<lparr>anomaly_count := anomaly_count self1 + 1,
                        alerts := alerts self1 @ [res]\<rparr>
             else self1)"

text \<open>
  The capture loop and the worker thread run side by side. An event is one iteration of
  either loop, or the arrival of a termination signal, whose handler clears \<open>running\<close>.
\<close>

datatype 'f event = Tick "'f tick" | Worker real | Signal

definition step ::
  "'f cv2 \<Rightarrow> real \<Rightarrow> ('f, 'o) surveillance_system \<Rightarrow> 'f event
     \<Rightarrow> exn option \<times> ('f, 'o) surveillance_system" where
  "step cv FRAME_INTERVAL self ev =
     (case ev of
        Tick t \<Rightarrow> loop_body cv FRAME_INTERVAL self t
      | Worker ts \<Rightarrow> (None, analysis_worker_body self ts)
      | Signal \<Rightarrow> (None, self\<lparr>running := False\<rparr>))"

text \<open>
  Running the capture loop and the worker over a list of events. Each of the two tests
  \<open>running\<close> before an iteration, so nothing happens once the flag is cleared. The result
  is the exception that left \<open>_run_loop\<close>, if any, and the object as it is then.
\<close>

fun run_loop ::
  "'f cv2 \<Rightarrow> real \<Rightarrow> ('f, 'o) surveillance_system \<Rightarrow> 'f event list
     \<Rightarrow> exn option \<times> ('f, 'o) surveillance_system" where
  "run_loop cv FRAME_INTERVAL self [] = (None, self)"
| "run_loop cv FRAME_INTERVAL self (ev # evs) =
     (if \<not> running self then (None, self)
      else case step cv FRAME_INTERVAL self ev of
             (Some e, self') \<Rightarrow> (Some e, self')
           | (None, self') \<Rightarrow> run_loop cv FRAME_INTERVAL self' evs)"

definition stop :: "('f, 'o) surveillance_system \<Rightarrow> ('f, 'o) surveillance_system" where
  "stop self =
     self\<lparr>running := False, camera := camera_stop (camera self), trace := trace self @ [Stop]\<rparr>"

text \<open>
  \<open>start\<close>, observed over a list of events. It has returned, or an exception has left it
  (after \<open>stop\<close>, which the \<open>finally\<close> clause calls), or the events ended while the loop was
  still running.
\<close>

datatype ('f, 'o) outcome =
  Returned "('f, 'o) surveillance_system"
  | Raised exn "('f, 'o) surveillance_system"
  | StillRunning "('f, 'o) surveillance_system"

definition start ::
  "'f cv2 \<Rightarrow> real \<Rightarrow> bool \<Rightarrow> ('f, 'o) surveillance_system \<Rightarrow> 'f event list \<Rightarrow> ('f, 'o) outcome" where
  "start cv FRAME_INTERVAL device_opens self evs =
     (let (ok, cam) = camera_start device_opens (camera self);
          self0 = self\<lparr>camera := cam, trace := trace self @ [CameraStart]\<rparr>
      in if \<not> ok then Returned self0
         else
           let self1 = self0\<lparr>running := True, trace := trace self0 @ [SetupSignalHandlers]\<rparr>;
               self2 = self1\<lparr>analysis_thread := Some (), trace := trace self1 @ [ThreadStart]\<rparr>;
               self3 = self2\<lparr>trace := trace self2 @ [RunLoop]\<rparr>
           in case run_loop cv FRAME_INTERVAL self3 evs of
                (Some e, s) \<Rightarrow> Raised e (stop s)
              | (None, s) \<Rightarrow> if running s then StillRunning s else Returned (stop s))"

text \<open>The object as \<open>start\<close> leaves it, whichever way the observation ends.\<close>

fun outcome_state :: "('f, 'o) outcome \<Rightarrow> ('f, 'o) surveillance_system" where
  "outcome_state (Returned s) = s"
| "outcome_state (Raised e s) = s"
| "outcome_state (StillRunning s) = s"

text \<open>The time stamps of the frames that the queue accepted, in order.\<close>

fun queued_times :: "action list \<Rightarrow> real list" where
  "queued_times [] = []"
| "queued_times (Queued t # as) = t # queued_times as"
| "queued_times (a # as) = queued_times as"

text \<open>The clock readings of the iterations of the capture loop, in order.\<close>

fun tick_times :: "'f event list \<Rightarrow> real list" where
  "tick_times [] = []"
| "tick_times (Tick t # evs) = time_now t # tick_times evs"
| "tick_times (ev # evs) = tick_times evs"

text \<open>The queue has its capacity of ten and holds no more than that.\<close>

definition queue_ok :: "('f, 'o) surveillance_system \<Rightarrow> bool" where
  "queue_ok s = (maxsize (analysis_queue s) = 10 \<and> length (items (analysis_queue s)) \<le> 10)"

text \<open>
  The accepted time stamps ascend, any two of them are at least the interval apart, and
  \<open>last_analysis_time\<close> is the latest of them.
\<close>

definition pacing :: "real \<Rightarrow> ('f, 'o) surveillance_system \<Rightarrow> bool" where
  "pacing I s =
     (sorted (queued_times (trace s))
      \<and> sorted_wrt (\<lambda>a b. I \<le> b - a) (queued_times (trace s))
      \<and> (queued_times (trace s) \<noteq> [] \<longrightarrow>
           last_analysis_time s = last (queued_times (trace s))))"

section \<open>Example clients\<close>

text \<open>
  Clients for concrete runs: one that answers every description call with the same text and
  every detection call with the same objects, and one whose description call fails.
\<close>

definition fixed_client :: "string \<Rightarrow> nat list \<Rightarrow> (gray, nat) moondream_client" where
  "fixed_client answer objs =
     \<lparr> analyze_frame = (\<lambda>f p. Inr answer),
       detect_objects = (\<lambda>f. Inr [''objects'' \<mapsto> objs]) \<rparr>"

definition failing_client :: "string \<Rightarrow> (gray, nat) moondream_client" where
  "failing_client msg =
     \<lparr> analyze_frame = (\<lambda>f p. Inl (Exception msg)),
       detect_objects = (\<lambda>f. Inr [''objects'' \<mapsto> [1]]) \<rparr>"

section \<open>Example frames and OpenCV functions\<close>

text \<open>
  For concrete runs a frame is its own grey-scale image. The contour finder of the examples
  looks for the rows and columns that hold a non-zero pixel: for an image without one it
  returns nothing, and for an image whose non-zero pixels fill one block it returns the
  contour of that block. These are the results of \<open>cv2.findContours\<close> on such images. It
  returns nothing for an image of any other kind, which is not what OpenCV does, and the
  examples use no such image.
\<close>

definition lit_rows :: "gray \<Rightarrow> nat list" where
  "lit_rows img = map fst (filter (\<lambda>(i, row). list_ex (\<lambda>p. p \<noteq> 0) row) (enumerate 0 img))"

definition lit_cols :: "8 word list \<Rightarrow> nat list" where
  "lit_cols row = map fst (filter (\<lambda>(j, p). p \<noteq> 0) (enumerate 0 row))"

definition block_contours :: "gray \<Rightarrow> contour list" where
  "block_contours img =
     (case lit_rows img of
        [] \<Rightarrow> []
      | y0 # _ \<Rightarrow>
          let y1 = last (lit_rows img);
              x0 = hd (lit_cols (img ! y0));
              x1 = last (lit_cols (img ! y0))
          in if is_block img x0 y0 x1 y1 then [block_contour x0 y0 x1 y1] else [])"

definition example_cv2 :: "gray cv2" where
  "example_cv2 = \<lparr> cvtColor = (\<lambda>frame. frame), findContours = block_contours \<rparr>"

text \<open>
  Frames of 24 by 24 pixels of one grey value each: 0, 25, 26 and 200. Against the dark
  frame, the outline of a frame that differs everywhere encloses an area of 23 times 23.
\<close>

definition dark :: gray where
  "dark = replicate 24 (replicate 24 0)"

definition faint :: gray where
  "faint = replicate 24 (replicate 24 25)"

definition glow :: gray where
  "glow = replicate 24 (replicate 24 26)"

definition bright :: gray where
  "bright = replicate 24 (replicate 24 200)"

text \<open>
  Frames of 28 by 23 pixels: a black one, and one with a block of 26 by 21 pixels of grey
  value 200 inside a black margin one pixel wide.
\<close>

definition night :: gray where
  "night = replicate 23 (replicate 28 0)"

definition lit_block :: gray where
  "lit_block =
     replicate 28 0 # replicate 21 (0 # replicate 26 200 @ [0]) @ [replicate 28 0]"

definition idle_system :: "(gray, nat) surveillance_system" where
  "idle_system = SurveillanceSystem (fixed_client [] []) 0 True"

text \<open>
  Iterations of the capture loop that read the two given frames in turn at the given
  times, and the object after \<open>start\<close> has run over them with an interval of two seconds
  and no worker iteration.
\<close>

fun motion_ticks :: "gray \<Rightarrow> gray \<Rightarrow> real list \<Rightarrow> gray event list" where
  "motion_ticks a b [] = []"
| "motion_ticks a b (t # ts) =
     Tick \<lparr> frame_read = Some a, time_now = t, key_q = False \<rparr> # motion_ticks b a ts"

definition motion_run :: "real list \<Rightarrow> (gray, nat) surveillance_system" where
  "motion_run ts =
     outcome_state (start example_cv2 2 True idle_system (motion_ticks dark bright ts))"

section \<open>Properties of the keyword gate\<close>

lemma str_in_append_left: "str_in w s \<Longrightarrow> str_in w (s @ t)"
  unfolding str_in_def sublist_def by (metis append.assoc)

lemma str_in_append_cases:
  assumes "str_in w (s @ t)" and "w \<noteq> []" and "last w \<notin> set t"
  shows "str_in w s"
proof -
  from assms(1) have "sublist w s \<or> sublist w t
      \<or> (\<exists>w1 w2. w = w1 @ w2 \<and> suffix w1 s \<and> prefix w2 t)"
    unfolding str_in_def by (simp add: sublist_append)
  then consider (left) "sublist w s" | (right) "sublist w t"
    | (split) w1 w2 where "w = w1 @ w2" "suffix w1 s" "prefix w2 t"
    by blast
  then show ?thesis
  proof cases
    case left
    then show ?thesis by (simp add: str_in_def)
  next
    case right
    then have "set w \<subseteq> set t" by (rule set_mono_sublist)
    moreover have "last w \<in> set w" using assms(2) by simp
    ultimately have "last w \<in> set t" by (rule subsetD)
    with assms(3) show ?thesis by simp
  next
    case split
    show ?thesis
    proof (cases "w2 = []")
      case True
      with split have "suffix w s" by simp
      then show ?thesis by (simp add: str_in_def suffix_imp_sublist)
    next
      case False
      then have "last w = last w2" using split(1) by simp
      moreover have "last w2 \<in> set w2" using False by simp
      moreover have "set w2 \<subseteq> set t" using split(3) by (rule set_mono_prefix)
      ultimately have "last w \<in> set t" by auto
      with assms(3) show ?thesis by simp
    qed
  qed
qed

lemma negation_in_desc_lower:
  assumes "str_in w (lower d)"
  shows "str_in w (desc_lower d)"
  using assms by (simp add: desc_lower_def Let_def str_in_append_left)

lemma person_is_alert_keyword: "''person'' \<in> set (alert_keywords (AnomalyDetector c))"
  by (simp add: AnomalyDetector_def ALERT_KEYWORDS_def lower_def lower_char_def)

section \<open>The two-stage decision of \<open>analyze\<close>\<close>

text \<open>
  Claim C1. When the description call returns a text that passes the keyword gate and the
  detection call returns, the verdict follows the number of detected objects: with no
  object the result has \<open>is_anomaly\<close> false and confidence \<open>normal\<close>; with at least one
  object it has \<open>is_anomaly\<close> true, confidence \<open>high\<close> and \<open>persons_detected\<close> true.
\<close>

theorem analyze_two_stage:
  assumes "analyze_frame (client self) frame (prompt self) = Inr d"
    and "check_for_anomaly self d"
    and "detect_objects (client self) frame = Inr dr"
  shows "(get_objects dr = [] \<longrightarrow>
            \<not> is_anomaly (fst (analyze self ts frame))
            \<and> confidence (fst (analyze self ts frame)) = ''normal'')
       \<and> (get_objects dr \<noteq> [] \<longrightarrow>
            is_anomaly (fst (analyze self ts frame))
            \<and> confidence (fst (analyze self ts frame)) = ''high''
            \<and> persons_detected (fst (analyze self ts frame)))"
  using assms by (simp add: analyze_def analyze_try_def Let_def)

text \<open>
  The description \<open>a woman walking, looks suspicious\<close>, once with one detected object and
  once with none.
\<close>

theorem analyze_two_stage_witness:
  "check_for_anomaly (AnomalyDetector (fixed_client ''a woman walking, looks suspicious'' [7])) ''a woman walking, looks suspicious''
   \<and> get_objects [''objects'' \<mapsto> [7::nat]] \<noteq> []
   \<and> is_anomaly (fst (analyze (AnomalyDetector (fixed_client ''a woman walking, looks suspicious'' [7])) 0 []))
   \<and> confidence (fst (analyze (AnomalyDetector (fixed_client ''a woman walking, looks suspicious'' [7])) 0 [])) = ''high''
   \<and> persons_detected (fst (analyze (AnomalyDetector (fixed_client ''a woman walking, looks suspicious'' [7])) 0 []))
   \<and> description (fst (analyze (AnomalyDetector (fixed_client ''a woman walking, looks suspicious'' [7])) 0 []))
       = ''a woman walking, looks suspicious [PERSON DETECTED: 1 person(s) found]''
   \<and> check_for_anomaly (AnomalyDetector (fixed_client ''a woman walking, looks suspicious'' [])) ''a woman walking, looks suspicious''
   \<and> get_objects [''objects'' \<mapsto> ([]::nat list)] = []
   \<and> \<not> is_anomaly (fst (analyze (AnomalyDetector (fixed_client ''a woman walking, looks suspicious'' [])) 0 []))
   \<and> confidence (fst (analyze (AnomalyDetector (fixed_client ''a woman walking, looks suspicious'' [])) 0 [])) = ''normal''"
proof -
  have g1: "check_for_anomaly (AnomalyDetector (fixed_client ''a woman walking, looks suspicious'' [7])) ''a woman walking, looks suspicious''"
    by code_simp
  have g0: "check_for_anomaly (AnomalyDetector (fixed_client ''a woman walking, looks suspicious'' [])) ''a woman walking, looks suspicious''"
    by code_simp
  have a1: "analyze_frame (client (AnomalyDetector (fixed_client ''a woman walking, looks suspicious'' [7]))) [] (prompt (AnomalyDetector (fixed_client ''a woman walking, looks suspicious'' [7])))
      = Inr ''a woman walking, looks suspicious''"
    by (simp add: AnomalyDetector_def fixed_client_def)
  have a0: "analyze_frame (client (AnomalyDetector (fixed_client ''a woman walking, looks suspicious'' []))) [] (prompt (AnomalyDetector (fixed_client ''a woman walking, looks suspicious'' [])))
      = Inr ''a woman walking, looks suspicious''"
    by (simp add: AnomalyDetector_def fixed_client_def)
  have d1: "detect_objects (client (AnomalyDetector (fixed_client ''a woman walking, looks suspicious'' [7]))) [] = Inr [''objects'' \<mapsto> [7]]"
    by (simp add: AnomalyDetector_def fixed_client_def)
  have d0: "detect_objects (client (AnomalyDetector (fixed_client ''a woman walking, looks suspicious'' []))) [] = Inr [''objects'' \<mapsto> []]"
    by (simp add: AnomalyDetector_def fixed_client_def)
  have o1: "get_objects [''objects'' \<mapsto> [7::nat]] \<noteq> []" by (simp add: get_objects_def)
  have o0: "get_objects [''objects'' \<mapsto> ([]::nat list)] = []" by (simp add: get_objects_def)
  have desc: "description (fst (analyze (AnomalyDetector (fixed_client ''a woman walking, looks suspicious'' [7])) 0 []))
       = ''a woman walking, looks suspicious [PERSON DETECTED: 1 person(s) found]''"
    using g1 a1 d1 o1 by (simp add: analyze_def analyze_try_def Let_def get_objects_def)
  show ?thesis
    using analyze_two_stage [OF a1 g1 d1, of 0] analyze_two_stage [OF a0 g0 d0, of 0]
      g1 g0 o1 o0 desc by simp
qed

text \<open>
  Claim C2. When the lower-cased description contains one of the phrases \<open>no anomaly\<close>,
  \<open>nothing unusual\<close>, \<open>appears normal\<close> or \<open>everything looks normal\<close>, the keyword gate is
  false whatever alert keywords occur, and \<open>analyze\<close> on such a description makes no
  detection call and returns \<open>is_anomaly\<close> false.
\<close>

theorem negation_forces_gate_false:
  assumes "str_in ''no anomaly'' (lower d) \<or> str_in ''nothing unusual'' (lower d)
         \<or> str_in ''appears normal'' (lower d) \<or> str_in ''everything looks normal'' (lower d)"
  shows "\<not> check_for_anomaly self d
       \<and> (analyze_frame (client self) frame (prompt self) = Inr d \<longrightarrow>
            \<not> is_anomaly (fst (analyze self ts frame))
            \<and> DetectObjects \<notin> set (snd (analyze self ts frame)))"
proof -
  from assms have "str_in ''no anomaly'' (desc_lower d) \<or> str_in ''nothing unusual'' (desc_lower d)
         \<or> str_in ''appears normal'' (desc_lower d) \<or> str_in ''everything looks normal'' (desc_lower d)"
    using negation_in_desc_lower by blast
  then have gate: "\<not> check_for_anomaly self d"
    by (auto simp add: check_for_anomaly_def Let_def)
  then show ?thesis
    by (simp add: analyze_def analyze_try_def Let_def)
qed

text \<open>
  The description \<open>no anomaly detected, suspicious person nearby\<close> contains alert keywords
  and a negation phrase.
\<close>

theorem negation_forces_gate_false_witness:
  "str_in ''no anomaly'' (lower ''no anomaly detected, suspicious person nearby'')
   \<and> list_ex (\<lambda>k. str_in k (lower ''no anomaly detected, suspicious person nearby'')) ALERT_KEYWORDS
   \<and> \<not> check_for_anomaly (AnomalyDetector (fixed_client ''no anomaly detected, suspicious person nearby'' [1]))
         ''no anomaly detected, suspicious person nearby''
   \<and> \<not> is_anomaly (fst (analyze
         (AnomalyDetector (fixed_client ''no anomaly detected, suspicious person nearby'' [1])) 0 []))
   \<and> DetectObjects \<notin> set (snd (analyze
         (AnomalyDetector (fixed_client ''no anomaly detected, suspicious person nearby'' [1])) 0 []))"
proof -
  have n: "str_in ''no anomaly'' (lower ''no anomaly detected, suspicious person nearby'')"
    by code_simp
  have k: "list_ex (\<lambda>k. str_in k (lower ''no anomaly detected, suspicious person nearby'')) ALERT_KEYWORDS"
    by code_simp
  have a: "analyze_frame (client (AnomalyDetector (fixed_client ''no anomaly detected, suspicious person nearby'' [1])))
       [] (prompt (AnomalyDetector (fixed_client ''no anomaly detected, suspicious person nearby'' [1])))
     = Inr ''no anomaly detected, suspicious person nearby''"
    by (simp add: AnomalyDetector_def fixed_client_def)
  show ?thesis
    using negation_forces_gate_false [of "''no anomaly detected, suspicious person nearby''"
        "AnomalyDetector (fixed_client ''no anomaly detected, suspicious person nearby'' [1])" "[]" 0]
      n k a by simp
qed

text \<open>
  Claim C5. When the description call raises, the \<open>try\<close> block of \<open>analyze\<close> is left by
  that exception, and \<open>analyze\<close> returns the result with confidence \<open>error\<close>, \<open>is_anomaly\<close>
  false and the description \<open>Error: \<close> followed by the text of the exception; the only
  client call made is the description call.
\<close>

theorem describe_failure_absorbed:
  assumes "analyze_frame (client self) frame (prompt self) = Inl e"
  shows "fst (analyze_try self ts frame) = Inl e
       \<and> analyze self ts frame =
           (\<lparr> timestamp = ts, description = ''Error: '' @ str_exn e, is_anomaly = False,
              confidence = ''error'', persons_detected = False, detected_objects = [],
              detection_result = None \<rparr>, [AnalyzeFrame])
       \<and> DetectObjects \<notin> set (snd (analyze self ts frame))"
  using assms by (simp add: analyze_def analyze_try_def)

theorem describe_failure_absorbed_witness:
  "analyze_frame (client (AnomalyDetector (failing_client ''connection refused''))) []
       (prompt (AnomalyDetector (failing_client ''connection refused'')))
     = Inl (Exception ''connection refused'')
   \<and> analyze (AnomalyDetector (failing_client ''connection refused'')) 0 [] =
           (\<lparr> timestamp = 0, description = ''Error: connection refused'', is_anomaly = False,
              confidence = ''error'', persons_detected = False, detected_objects = [],
              detection_result = None \<rparr>, [AnalyzeFrame])"
proof -
  have a: "analyze_frame (client (AnomalyDetector (failing_client ''connection refused''))) []
       (prompt (AnomalyDetector (failing_client ''connection refused'')))
     = Inl (Exception ''connection refused'')"
    by (simp add: AnomalyDetector_def failing_client_def)
  show ?thesis
    using describe_failure_absorbed [OF a, of 0] a by simp
qed

text \<open>
  Claim C6. The human words are matched as substrings. When the lower-cased description
  contains a human word anywhere, also inside a longer word, and neither \<open>person\<close> nor a
  negation phrase, the text matched is the lower-cased description followed by
  \<open>" person"\<close>, and the keyword gate of the configured detector is true.
\<close>

theorem human_substring_opens_gate:
  assumes "list_ex (\<lambda>word. str_in word (lower d)) human_words"
    and "\<not> str_in ''person'' (lower d)"
    and "\<not> str_in ''no anomaly'' (lower d)" and "\<not> str_in ''nothing unusual'' (lower d)"
    and "\<not> str_in ''appears normal'' (lower d)"
    and "\<not> str_in ''everything looks normal'' (lower d)"
  shows "desc_lower d = lower d @ '' person'' \<and> check_for_anomaly (AnomalyDetector c) d"
proof -
  have ext: "desc_lower d = lower d @ '' person''"
    using assms(1,2) by (simp add: desc_lower_def Let_def)
  have n1: "\<not> str_in ''no anomaly'' (desc_lower d)"
    using assms(3) str_in_append_cases [of "''no anomaly''" "lower d" "'' person''"]
    by (auto simp add: ext)
  have n2: "\<not> str_in ''nothing unusual'' (desc_lower d)"
    using assms(4) str_in_append_cases [of "''nothing unusual''" "lower d" "'' person''"]
    by (auto simp add: ext)
  have n3: "\<not> str_in ''appears normal'' (desc_lower d)"
    using assms(5) str_in_append_cases [of "''appears normal''" "lower d" "'' person''"]
    by (auto simp add: ext)
  have n4: "\<not> str_in ''everything looks normal'' (desc_lower d)"
    using assms(6) str_in_append_cases [of "''everything looks normal''" "lower d" "'' person''"]
    by (auto simp add: ext)
  have "str_in ''person'' (desc_lower d)"
    unfolding ext str_in_def
    using sublist_appendI [of "''person''" "lower d @ '' ''" "[]"] by simp
  then have "list_ex (\<lambda>keyword. str_in keyword (desc_lower d)) (alert_keywords (AnomalyDetector c))"
    using person_is_alert_keyword [of c] by (auto simp add: list_ex_iff)
  with n1 n2 n3 n4 have "check_for_anomaly (AnomalyDetector c) d"
    by (simp add: check_for_anomaly_def Let_def)
  with ext show ?thesis by simp
qed

text \<open>
  \<open>Many\<close> contains \<open>man\<close>: a description of parked cars with no alert keyword passes the
  gate, and the same description without that word does not.
\<close>

theorem human_substring_opens_gate_witness:
  "list_ex (\<lambda>word. str_in word (lower ''Many cars are parked in a row'')) human_words
   \<and> \<not> str_in ''person'' (lower ''Many cars are parked in a row'')
   \<and> \<not> list_ex (\<lambda>k. str_in k (lower ''Many cars are parked in a row'')) ALERT_KEYWORDS
   \<and> desc_lower ''Many cars are parked in a row'' = ''many cars are parked in a row person''
   \<and> check_for_anomaly (AnomalyDetector (fixed_client [] [])) ''Many cars are parked in a row''
   \<and> \<not> check_for_anomaly (AnomalyDetector (fixed_client [] [])) ''Cars are parked in a row''"
proof -
  have h: "list_ex (\<lambda>word. str_in word (lower ''Many cars are parked in a row'')) human_words"
    by code_simp
  have p: "\<not> str_in ''person'' (lower ''Many cars are parked in a row'')"
    by code_simp
  have k: "\<not> list_ex (\<lambda>k. str_in k (lower ''Many cars are parked in a row'')) ALERT_KEYWORDS"
    by code_simp
  have n1: "\<not> str_in ''no anomaly'' (lower ''Many cars are parked in a row'')" by code_simp
  have n2: "\<not> str_in ''nothing unusual'' (lower ''Many cars are parked in a row'')" by code_simp
  have n3: "\<not> str_in ''appears normal'' (lower ''Many cars are parked in a row'')" by code_simp
  have n4: "\<not> str_in ''everything looks normal'' (lower ''Many cars are parked in a row'')"
    by code_simp
  have l: "lower ''Many cars are parked in a row'' = ''many cars are parked in a row''"
    by code_simp
  have b: "\<not> check_for_anomaly (AnomalyDetector (fixed_client [] [])) ''Cars are parked in a row''"
    by code_simp
  show ?thesis
    using human_substring_opens_gate [OF h p n1 n2 n3 n4, of "fixed_client [] []"] h p k b
    by (simp add: l)
qed

section \<open>The motion check\<close>

subsection \<open>Contours, differences and thresholds\<close>

lemma block_contour_area:
  assumes "x0 \<le> x1" and "y0 \<le> y1"
  shows "contourArea (block_contour x0 y0 x1 y1) = real ((x1 - x0) * (y1 - y0))"
proof -
  define k where "k = (int x1 - int x0) * (int y1 - int y0)"
  have cs: "cross_sum (int x1, int y0) (block_contour x0 y0 x1 y1) = - (2 * k)"
    by (simp add: block_contour_def k_def algebra_simps)
  have nn: "0 \<le> k" using assms by (simp add: k_def)
  have kr: "real_of_int k = real ((x1 - x0) * (y1 - y0))"
    using assms by (simp add: k_def of_nat_diff)
  have "contourArea (block_contour x0 y0 x1 y1)
      = \<bar>real_of_int (cross_sum (int x1, int y0) (block_contour x0 y0 x1 y1))\<bar> / 2"
    by (simp add: contourArea_def block_contour_def)
  also have "\<dots> = \<bar>real_of_int (- (2 * k))\<bar> / 2" by (simp only: cs)
  also have "\<dots> = real_of_int k" using nn by simp
  finally show ?thesis by (simp only: kr)
qed

lemma uint_absdiff_pixel: "uint (absdiff_pixel a b) = \<bar>uint a - uint b\<bar>"
  by (simp add: absdiff_pixel_def word_le_def uint_sub_lem [THEN iffD1] abs_if)

lemma absdiff_same: "absdiff g g = Inr (blank g)"
  by (simp add: absdiff_def blank_def absdiff_pixel_def zip_same_conv_map)

lemma threshold_blank: "0 \<le> t \<Longrightarrow> threshold (blank g) t m = blank g"
  by (simp add: threshold_def blank_def)

lemma absdiff_shape:
  assumes "absdiff prev cur = Inr diff"
  shows "length prev = length cur" and "length diff = length cur"
    and "i < length cur \<Longrightarrow> length (prev ! i) = length (cur ! i)"
    and "i < length cur \<Longrightarrow> diff ! i = map2 absdiff_pixel (prev ! i) (cur ! i)"
proof -
  from assms have m: "map length prev = map length cur"
    and d: "diff = map2 (map2 absdiff_pixel) prev cur"
    by (auto simp add: absdiff_def split: if_splits)
  from m show l: "length prev = length cur" by (rule map_eq_imp_length_eq)
  from d l show "length diff = length cur" by simp
  show "length (prev ! i) = length (cur ! i)" if "i < length cur"
  proof -
    from that l have "map length prev ! i = length (prev ! i)"
      and "map length cur ! i = length (cur ! i)" by simp_all
    with m show ?thesis by simp
  qed
  show "diff ! i = map2 absdiff_pixel (prev ! i) (cur ! i)" if "i < length cur"
    using that l by (simp add: d)
qed

lemma threshold_absdiff_nth:
  assumes "absdiff prev cur = Inr diff" and "i < length cur" and "j < length (cur ! i)"
  shows "threshold diff t m ! i ! j
           = (if t < \<bar>uint (prev ! i ! j) - uint (cur ! i ! j)\<bar> then m else 0)"
proof -
  note sh = absdiff_shape [OF assms(1)]
  from assms(2) sh(2) have "threshold diff t m ! i
      = map (\<lambda>p. if uint p > t then m else 0) (diff ! i)"
    by (simp add: threshold_def)
  also have "diff ! i = map2 absdiff_pixel (prev ! i) (cur ! i)" using assms(2) by (rule sh(4))
  finally have "threshold diff t m ! i ! j
      = (if uint (absdiff_pixel (prev ! i ! j) (cur ! i ! j)) > t then m else 0)"
    using assms(3) sh(3) [OF assms(2)] by simp
  then show ?thesis by (simp add: uint_absdiff_pixel)
qed

lemma threshold_absdiff_blank:
  assumes "absdiff prev cur = Inr diff"
    and "\<forall>i<length cur. \<forall>j<length (cur ! i). \<bar>uint (prev ! i ! j) - uint (cur ! i ! j)\<bar> \<le> t"
  shows "threshold diff t m = blank cur"
proof (rule nth_equalityI)
  note sh = absdiff_shape [OF assms(1)]
  show "length (threshold diff t m) = length (blank cur)"
    by (simp add: threshold_def blank_def sh(2))
  fix i assume "i < length (threshold diff t m)"
  then have i: "i < length cur" by (simp add: threshold_def sh(2))
  show "threshold diff t m ! i = blank cur ! i"
  proof (rule nth_equalityI)
    show "length (threshold diff t m ! i) = length (blank cur ! i)"
      using i sh(2) sh(3) [OF i] by (simp add: threshold_def blank_def sh(4) [OF i])
    fix j assume "j < length (threshold diff t m ! i)"
    then have j: "j < length (cur ! i)"
      using i sh(2) sh(3) [OF i] by (simp add: threshold_def sh(4) [OF i])
    from assms(2) i j have "\<not> t < \<bar>uint (prev ! i ! j) - uint (cur ! i ! j)\<bar>" by fastforce
    then have "threshold diff t m ! i ! j = 0"
      by (simp add: threshold_absdiff_nth [OF assms(1) i j])
    moreover have "blank cur ! i ! j = 0" using i j by (simp add: blank_def)
    ultimately show "threshold diff t m ! i ! j = blank cur ! i ! j" by simp
  qed
qed

lemma detect_motion_later:
  assumes "previous_frame self = Some prev" and "absdiff prev (cvtColor cv frame) = Inr diff"
  shows "detect_motion cv self frame =
        Inr (real_of_int (min_motion_area self)
               < sum_list (map contourArea
                    (findContours cv (threshold diff (motion_threshold self) 255))),
             self\<lparr>previous_frame := Some (cvtColor cv frame)\<rparr>)"
  using assms by (simp add: detect_motion_def Let_def)

subsection \<open>The example frames\<close>

lemma cvt_example: "cvtColor example_cv2 f = f"
  by (simp add: example_cv2_def)

lemma find_example: "findContours example_cv2 img = block_contours img"
  by (simp add: example_cv2_def)

lemma idle_thresholds:
  "motion_threshold (idle_system\<lparr>previous_frame := pf\<rparr>) = 25"
  "min_motion_area (idle_system\<lparr>previous_frame := pf\<rparr>) = 500"
  by (simp_all add: idle_system_def SurveillanceSystem_def)

lemma absdiff_dark_glow: "absdiff dark glow = Inr glow"
  by (simp add: absdiff_def dark_def glow_def absdiff_pixel_def)

lemma absdiff_dark_faint: "absdiff dark faint = Inr faint"
  by (simp add: absdiff_def dark_def faint_def absdiff_pixel_def)

lemma absdiff_dark_bright: "absdiff dark bright = Inr bright"
  by (simp add: absdiff_def dark_def bright_def absdiff_pixel_def)

lemma absdiff_bright_dark: "absdiff bright dark = Inr bright"
  by (simp add: absdiff_def dark_def bright_def absdiff_pixel_def)

lemma glow_block: "is_block (threshold glow 25 255) 0 0 23 23"
  by code_simp

lemma glow_contours: "block_contours (threshold glow 25 255) = [block_contour 0 0 23 23]"
  by code_simp

lemma bright_contours: "block_contours (threshold bright 25 255) = [block_contour 0 0 23 23]"
  by code_simp

lemma blank_contours:
  "block_contours (blank faint) = []" "block_contours (blank glow) = []"
  "block_contours (blank bright) = []" "block_contours (blank dark) = []"
  by code_simp+

lemma faint_within_cutoff:
  "\<forall>i<length faint. \<forall>j<length (faint ! i). \<bar>uint (dark ! i ! j) - uint (faint ! i ! j)\<bar> \<le> 25"
  by (simp add: dark_def faint_def)

lemma faint_threshold: "threshold faint 25 255 = blank faint"
  by (simp add: threshold_def blank_def faint_def)

lemma absdiff_night_block: "absdiff night lit_block = Inr lit_block"
  by code_simp

lemma lit_block_contours:
  "block_contours (threshold lit_block 25 255) = [block_contour 1 1 26 21]"
  by code_simp

lemma lit_block_pixels: "spec_region_area (threshold lit_block 25 255) = 546"
  by code_simp

lemma bright_motion_area:
  "sum_list (map contourArea (block_contours (threshold bright 25 255))) = 529"
proof -
  have "contourArea (block_contour 0 0 23 23) = real ((23 - 0) * (23 - 0))"
    by (rule block_contour_area) simp_all
  then show ?thesis by (simp add: bright_contours)
qed

lemma detect_motion_dark_bright:
  "detect_motion example_cv2 (idle_system\<lparr>previous_frame := Some dark\<rparr>) bright
    = Inr (True, idle_system\<lparr>previous_frame := Some bright\<rparr>)"
  by (simp add: detect_motion_def cvt_example find_example absdiff_dark_bright
      idle_thresholds bright_motion_area)

subsection \<open>The first call\<close>

text \<open>
  Claim C7. On the first call, when no previous frame is stored, \<open>_detect_motion\<close> returns
  true for every frame and stores the frame's grey-scale image; nothing else of the object
  changes, and the result depends on no comparison.
\<close>

theorem first_call_reports_motion:
  assumes "previous_frame self = None"
  shows "detect_motion cv self frame
           = Inr (True, self\<lparr>previous_frame := Some (cvtColor cv frame)\<rparr>)"
  using assms by (simp add: detect_motion_def)

theorem first_call_reports_motion_witness:
  "previous_frame idle_system = None
   \<and> detect_motion example_cv2 idle_system dark
       = Inr (True, idle_system\<lparr>previous_frame := Some dark\<rparr>)"
proof -
  have p: "previous_frame idle_system = None"
    by (simp add: idle_system_def SurveillanceSystem_def)
  show ?thesis
    using first_call_reports_motion [OF p, of example_cv2 "dark"] p
    by (simp add: example_cv2_def)
qed

subsection \<open>Later calls\<close>

text \<open>
  Claim C8, as the code has it. On a later call whose difference image exists, the verdict
  is true exactly when the sum of \<open>cv2.contourArea\<close> over the contours that
  \<open>cv2.findContours\<close> returns for the thresholded difference image is greater than
  \<open>min_motion_area\<close>. The thresholded image holds 255 exactly where the two grey images
  differ by more than \<open>motion_threshold\<close>, and zero elsewhere. When no pixel differs by more
  than that, and the contour finder finds nothing in an image without a non-zero pixel, the
  verdict is false; so it is for a second call with the same frame. When the pixels that
  differ by more than the cutoff fill one block and the contour finder returns the outline
  of the block, the area compared is the width times the height of the outline, each one
  less than the number of pixels across, and not the number of pixels in the block. The
  thresholds are 25 and 500 when the object is created.
\<close>

theorem motion_verdict_contour_area:
  "(previous_frame self = Some prev \<and> absdiff prev (cvtColor cv frame) = Inr diff \<longrightarrow>
      detect_motion cv self frame =
        Inr (real_of_int (min_motion_area self)
               < sum_list (map contourArea
                    (findContours cv (threshold diff (motion_threshold self) 255))),
             self\<lparr>previous_frame := Some (cvtColor cv frame)\<rparr>)
      \<and> (\<forall>i<length (cvtColor cv frame). \<forall>j<length (cvtColor cv frame ! i).
            threshold diff (motion_threshold self) 255 ! i ! j =
              (if motion_threshold self
                    < \<bar>uint (prev ! i ! j) - uint (cvtColor cv frame ! i ! j)\<bar>
               then 255 else 0))
      \<and> ((\<forall>i<length (cvtColor cv frame). \<forall>j<length (cvtColor cv frame ! i).
              \<bar>uint (prev ! i ! j) - uint (cvtColor cv frame ! i ! j)\<bar> \<le> motion_threshold self)
           \<and> findContours cv (blank (cvtColor cv frame)) = [] \<and> 0 \<le> min_motion_area self \<longrightarrow>
          detect_motion cv self frame =
            Inr (False, self\<lparr>previous_frame := Some (cvtColor cv frame)\<rparr>))
      \<and> (is_block (threshold diff (motion_threshold self) 255) x0 y0 x1 y1
           \<and> findContours cv (threshold diff (motion_threshold self) 255)
               = [block_contour x0 y0 x1 y1] \<longrightarrow>
          detect_motion cv self frame =
            Inr (min_motion_area self < int ((x1 - x0) * (y1 - y0)),
                 self\<lparr>previous_frame := Some (cvtColor cv frame)\<rparr>)))
   \<and> (detect_motion cv self frame = Inr (v, self1) \<and> 0 \<le> motion_threshold self
        \<and> 0 \<le> min_motion_area self \<and> findContours cv (blank (cvtColor cv frame)) = [] \<longrightarrow>
      detect_motion cv self1 frame = Inr (False, self1))
   \<and> motion_threshold (SurveillanceSystem c idx p) = 25
   \<and> min_motion_area (SurveillanceSystem c idx p) = 500"
proof -
  let ?cur = "cvtColor cv frame"
  let ?t = "motion_threshold self"
  let ?s' = "self\<lparr>previous_frame := Some ?cur\<rparr>"
  have later: "detect_motion cv self frame =
        Inr (real_of_int (min_motion_area self)
               < sum_list (map contourArea (findContours cv (threshold diff ?t 255))), ?s')"
    if "previous_frame self = Some prev" and "absdiff prev ?cur = Inr diff"
    using that by (simp add: detect_motion_def Let_def)
  have pixels: "\<forall>i<length ?cur. \<forall>j<length (?cur ! i).
            threshold diff ?t 255 ! i ! j =
              (if ?t < \<bar>uint (prev ! i ! j) - uint (?cur ! i ! j)\<bar> then 255 else 0)"
    if "absdiff prev ?cur = Inr diff"
    using threshold_absdiff_nth [OF that] by blast
  have below: "detect_motion cv self frame = Inr (False, ?s')"
    if p: "previous_frame self = Some prev" and d: "absdiff prev ?cur = Inr diff"
      and w: "\<forall>i<length ?cur. \<forall>j<length (?cur ! i).
              \<bar>uint (prev ! i ! j) - uint (?cur ! i ! j)\<bar> \<le> ?t"
      and f: "findContours cv (blank ?cur) = []" and m: "0 \<le> min_motion_area self"
  proof -
    from d w have "threshold diff ?t 255 = blank ?cur" by (rule threshold_absdiff_blank)
    with later [OF p d] f m show ?thesis by simp
  qed
  have block: "detect_motion cv self frame =
            Inr (min_motion_area self < int ((x1 - x0) * (y1 - y0)), ?s')"
    if p: "previous_frame self = Some prev" and d: "absdiff prev ?cur = Inr diff"
      and b: "is_block (threshold diff ?t 255) x0 y0 x1 y1"
      and f: "findContours cv (threshold diff ?t 255) = [block_contour x0 y0 x1 y1]"
  proof -
    from b have "x0 \<le> x1" and "y0 \<le> y1" by (simp_all add: is_block_def)
    then have a: "contourArea (block_contour x0 y0 x1 y1) = real ((x1 - x0) * (y1 - y0))"
      by (rule block_contour_area)
    have e: "(real_of_int (min_motion_area self) < real ((x1 - x0) * (y1 - y0)))
        = (min_motion_area self < int ((x1 - x0) * (y1 - y0)))"
      by (metis of_int_less_iff of_int_of_nat_eq)
    from later [OF p d] f
    have "detect_motion cv self frame =
        Inr (real_of_int (min_motion_area self) < contourArea (block_contour x0 y0 x1 y1), ?s')"
      by simp
    then show ?thesis by (simp only: a e)
  qed
  have same: "detect_motion cv self1 frame = Inr (False, self1)"
    if r: "detect_motion cv self frame = Inr (v, self1)" and t: "0 \<le> ?t"
      and m: "0 \<le> min_motion_area self" and f: "findContours cv (blank ?cur) = []"
  proof -
    from r have s1: "self1 = ?s'"
      by (auto simp add: detect_motion_def Let_def split: option.splits sum.splits)
    show ?thesis
      using t m f by (simp add: s1 detect_motion_def Let_def absdiff_same threshold_blank)
  qed
  have init: "motion_threshold (SurveillanceSystem c idx p) = 25
      \<and> min_motion_area (SurveillanceSystem c idx p) = 500"
    by (simp add: SurveillanceSystem_def)
  from later pixels below block same init show ?thesis by blast
qed

text \<open>
  Against the dark frame, a frame that differs by 26 everywhere gives motion, its outline
  enclosing 23 times 23, and a frame that differs by 25 everywhere gives none; the same
  frame a second time gives none.
\<close>

theorem motion_verdict_contour_area_witness:
  "absdiff dark glow = Inr glow
   \<and> is_block (threshold glow 25 255) 0 0 23 23
   \<and> findContours example_cv2 (threshold glow 25 255) = [block_contour 0 0 23 23]
   \<and> detect_motion example_cv2 (idle_system\<lparr>previous_frame := Some dark\<rparr>) glow
       = Inr (True, idle_system\<lparr>previous_frame := Some glow\<rparr>)
   \<and> absdiff dark faint = Inr faint
   \<and> threshold faint 25 255 = blank faint
   \<and> findContours example_cv2 (blank faint) = []
   \<and> detect_motion example_cv2 (idle_system\<lparr>previous_frame := Some dark\<rparr>) faint
       = Inr (False, idle_system\<lparr>previous_frame := Some faint\<rparr>)
   \<and> detect_motion example_cv2 (idle_system\<lparr>previous_frame := Some glow\<rparr>) glow
       = Inr (False, idle_system\<lparr>previous_frame := Some glow\<rparr>)"
proof -
  let ?S = "idle_system\<lparr>previous_frame := Some dark\<rparr>"
  have p: "previous_frame ?S = Some dark" by simp
  have upd: "?S\<lparr>previous_frame := Some f\<rparr> = idle_system\<lparr>previous_frame := Some f\<rparr>" for f
    by simp
  have fg: "findContours example_cv2 (threshold glow 25 255) = [block_contour 0 0 23 23]"
    by (simp only: find_example glow_contours)
  have fd: "findContours example_cv2 (blank faint) = []"
    by (simp only: find_example blank_contours)
  have fb: "findContours example_cv2 (blank glow) = []"
    by (simp only: find_example blank_contours)
  note bright_case = motion_verdict_contour_area [where self = ?S and prev = dark
      and cv = example_cv2 and frame = glow and diff = glow and ?x0.0 = 0 and ?y0.0 = 0
      and ?x1.0 = 23 and ?y1.0 = 23 and v = True
      and ?self1.0 = "idle_system\<lparr>previous_frame := Some glow\<rparr>"
      and c = "fixed_client [] []" and idx = 0 and p = True,
      unfolded cvt_example idle_thresholds upd]
  note faint_case = motion_verdict_contour_area [where self = ?S and prev = dark
      and cv = example_cv2 and frame = faint and diff = faint and ?x0.0 = 0 and ?y0.0 = 0
      and ?x1.0 = 23 and ?y1.0 = 23 and v = True
      and ?self1.0 = "idle_system\<lparr>previous_frame := Some glow\<rparr>"
      and c = "fixed_client [] []" and idx = 0 and p = True,
      unfolded cvt_example idle_thresholds upd]
  from bright_case p absdiff_dark_glow glow_block fg
  have "detect_motion example_cv2 ?S glow
       = Inr ((500::int) < int ((23 - 0) * (23 - 0)), idle_system\<lparr>previous_frame := Some glow\<rparr>)"
    by blast
  then have g: "detect_motion example_cv2 ?S glow
       = Inr (True, idle_system\<lparr>previous_frame := Some glow\<rparr>)"
    by simp
  have nonneg: "(0::int) \<le> 500" by simp
  from faint_case p absdiff_dark_faint faint_within_cutoff fd nonneg
  have d: "detect_motion example_cv2 ?S faint
       = Inr (False, idle_system\<lparr>previous_frame := Some faint\<rparr>)"
    by blast
  have nonneg': "(0::int) \<le> 25" by simp
  from bright_case g fb nonneg nonneg'
  have s: "detect_motion example_cv2 (idle_system\<lparr>previous_frame := Some glow\<rparr>) glow
       = Inr (False, idle_system\<lparr>previous_frame := Some glow\<rparr>)"
    by blast
  from absdiff_dark_glow glow_block fg g absdiff_dark_faint faint_threshold fd d s
  show ?thesis by blast
qed

text \<open>
  A block of 26 by 21 pixels, each differing by 200 from the frame before: 546 pixels are
  above the cutoff, more than \<open>min_motion_area\<close>, and the outline of the block encloses 25
  times 20, which is not more than 500. The verdict is false.
\<close>

theorem motion_pixel_area_counterexample:
  "absdiff night lit_block = Inr lit_block
   \<and> motion_threshold (idle_system\<lparr>previous_frame := Some night\<rparr>) = 25
   \<and> min_motion_area (idle_system\<lparr>previous_frame := Some night\<rparr>) = 500
   \<and> spec_region_area (threshold lit_block 25 255) = 546
   \<and> detect_motion example_cv2 (idle_system\<lparr>previous_frame := Some night\<rparr>) lit_block
       = Inr (False, idle_system\<lparr>previous_frame := Some lit_block\<rparr>)"
proof -
  let ?S = "idle_system\<lparr>previous_frame := Some night\<rparr>"
  have "contourArea (block_contour 1 1 26 21) = real ((26 - 1) * (21 - 1))"
    by (rule block_contour_area) simp_all
  then have "sum_list (map contourArea (block_contours (threshold lit_block 25 255))) = 500"
    by (simp add: lit_block_contours)
  then have v: "(real_of_int (min_motion_area ?S)
      < sum_list (map contourArea
          (findContours example_cv2 (threshold lit_block (motion_threshold ?S) 255)))) = False"
    by (simp add: find_example idle_thresholds)
  have "previous_frame ?S = Some night" by simp
  moreover have "absdiff night (cvtColor example_cv2 lit_block) = Inr lit_block"
    by (simp only: cvt_example absdiff_night_block)
  ultimately have "detect_motion example_cv2 ?S lit_block
       = Inr (real_of_int (min_motion_area ?S)
                < sum_list (map contourArea
                    (findContours example_cv2 (threshold lit_block (motion_threshold ?S) 255))),
              ?S\<lparr>previous_frame := Some (cvtColor example_cv2 lit_block)\<rparr>)"
    by (rule detect_motion_later)
  then have d: "detect_motion example_cv2 ?S lit_block
       = Inr (False, idle_system\<lparr>previous_frame := Some lit_block\<rparr>)"
    by (simp only: v cvt_example) simp
  from absdiff_night_block idle_thresholds lit_block_pixels d show ?thesis by blast
qed

subsection \<open>The stored frame\<close>

text \<open>
  Claim C9. Every call of \<open>_detect_motion\<close> that returns a verdict, true or false, leaves
  the object as it was except that \<open>previous_frame\<close> holds the grey-scale image of the
  current frame; \<open>motion_threshold\<close> and \<open>min_motion_area\<close> keep their values. The call
  returns unless the stored image and the current one differ in shape.
\<close>

theorem detect_motion_overwrites_previous_frame:
  "(detect_motion cv self frame = Inr (v, self') \<longrightarrow>
      self' = self\<lparr>previous_frame := Some (cvtColor cv frame)\<rparr>
      \<and> previous_frame self' = Some (cvtColor cv frame)
      \<and> motion_threshold self' = motion_threshold self
      \<and> min_motion_area self' = min_motion_area self)
   \<and> ((\<exists>v self'. detect_motion cv self frame = Inr (v, self')) \<longleftrightarrow>
        (case previous_frame self of
           None \<Rightarrow> True
         | Some prev \<Rightarrow> map length prev = map length (cvtColor cv frame)))"
  by (auto simp add: detect_motion_def Let_def absdiff_def split: option.splits sum.splits if_splits)

theorem detect_motion_overwrites_previous_frame_witness:
  "detect_motion example_cv2 (idle_system\<lparr>previous_frame := Some dark\<rparr>) bright
       = Inr (True, idle_system\<lparr>previous_frame := Some bright\<rparr>)
   \<and> previous_frame (idle_system\<lparr>previous_frame := Some bright\<rparr>)
       = Some (cvtColor example_cv2 bright)
   \<and> motion_threshold (idle_system\<lparr>previous_frame := Some bright\<rparr>)
       = motion_threshold (idle_system\<lparr>previous_frame := Some dark\<rparr>)
   \<and> min_motion_area (idle_system\<lparr>previous_frame := Some bright\<rparr>)
       = min_motion_area (idle_system\<lparr>previous_frame := Some dark\<rparr>)"
proof -
  note inst = detect_motion_overwrites_previous_frame [of example_cv2
        "idle_system\<lparr>previous_frame := Some dark\<rparr>" bright True
        "idle_system\<lparr>previous_frame := Some bright\<rparr>"]
  from inst [THEN conjunct1] detect_motion_dark_bright
  have "previous_frame (idle_system\<lparr>previous_frame := Some bright\<rparr>)
       = Some (cvtColor example_cv2 bright)
   \<and> motion_threshold (idle_system\<lparr>previous_frame := Some bright\<rparr>)
       = motion_threshold (idle_system\<lparr>previous_frame := Some dark\<rparr>)
   \<and> min_motion_area (idle_system\<lparr>previous_frame := Some bright\<rparr>)
       = min_motion_area (idle_system\<lparr>previous_frame := Some dark\<rparr>)"
    by blast
  with detect_motion_dark_bright show ?thesis by blast
qed

section \<open>The capture loop and the queue\<close>

lemma queued_times_append: "queued_times (xs @ ys) = queued_times xs @ queued_times ys"
  by (induction xs rule: queued_times.induct) simp_all

lemma detect_motion_fields:
  assumes "detect_motion cv s f = Inr (v, s')"
  shows "s' = s\<lparr>previous_frame := Some (cvtColor cv f)\<rparr>"
  using assms
  by (auto simp add: detect_motion_def Let_def split: option.splits sum.splits)

text \<open>
  The three ways an iteration of the capture loop can go: no frame was read, the motion
  check raised, or the frame went through the queueing step.
\<close>

lemma loop_body_cases:
  obtains (no_frame) "loop_body cv I s tk = (None, s\<lparr>trace := trace s @ [CaptureFrame]\<rparr>)"
  | (raised) e where "loop_body cv I s tk = (Some e, s\<lparr>trace := trace s @ [CaptureFrame]\<rparr>)"
  | (checked) f v s2 where
      "s2 = queue_frame I (s\<lparr>trace := trace s @ [CaptureFrame],
                               previous_frame := Some (cvtColor cv f)\<rparr>) f (time_now tk) v"
      "loop_body cv I s tk = (None, s2) \<or> loop_body cv I s tk = (None, s2\<lparr>running := False\<rparr>)"
proof (cases "capture_frame (camera s) (frame_read tk)")
  case None
  then have "loop_body cv I s tk = (None, s\<lparr>trace := trace s @ [CaptureFrame]\<rparr>)"
    by (simp add: loop_body_def Let_def)
  then show ?thesis by (rule no_frame)
next
  case (Some f)
  let ?s0 = "s\<lparr>trace := trace s @ [CaptureFrame]\<rparr>"
  show ?thesis
  proof (cases "detect_motion cv ?s0 f")
    case (Inl e)
    with Some have "loop_body cv I s tk = (Some e, ?s0)"
      by (simp add: loop_body_def Let_def)
    then show ?thesis by (rule raised)
  next
    case (Inr r)
    obtain v s1 where r: "r = (v, s1)" by (cases r)
    with Inr have dm: "detect_motion cv ?s0 f = Inr (v, s1)" by simp
    then have s1: "s1 = ?s0\<lparr>previous_frame := Some (cvtColor cv f)\<rparr>"
      by (rule detect_motion_fields)
    define s2 where "s2 = queue_frame I (s\<lparr>trace := trace s @ [CaptureFrame],
        previous_frame := Some (cvtColor cv f)\<rparr>) f (time_now tk) v"
    from Some dm s1 have "loop_body cv I s tk = (None, s2)
        \<or> loop_body cv I s tk = (None, s2\<lparr>running := False\<rparr>)"
      by (simp add: loop_body_def Let_def s2_def)
    with s2_def show ?thesis by (rule checked)
  qed
qed

lemma queue_frame_queue_ok: "queue_ok s \<Longrightarrow> queue_ok (queue_frame I s f t m)"
  by (auto simp add: queue_ok_def queue_frame_def put_nowait_def split: sum.splits if_splits)

lemma loop_body_queue_ok:
  assumes "queue_ok s"
  shows "queue_ok (snd (loop_body cv I s tk))"
proof (cases rule: loop_body_cases [of cv I s tk])
  case no_frame
  with assms show ?thesis by (simp add: queue_ok_def)
next
  case (raised e)
  with assms show ?thesis by (simp add: queue_ok_def)
next
  case (checked f v s2)
  from assms have "queue_ok (s\<lparr>trace := trace s @ [CaptureFrame],
      previous_frame := Some (cvtColor cv f)\<rparr>)"
    by (simp add: queue_ok_def)
  then have "queue_ok s2" unfolding checked(1) by (rule queue_frame_queue_ok)
  with checked(2) show ?thesis by (auto simp add: queue_ok_def)
qed

lemma worker_queue_ok: "queue_ok s \<Longrightarrow> queue_ok (analysis_worker_body s ts)"
  by (auto simp add: queue_ok_def analysis_worker_body_def queue_get_def Let_def
      split: list.splits prod.splits)

lemma step_queue_ok:
  assumes "queue_ok s"
  shows "queue_ok (snd (step cv I s ev))"
proof (cases ev)
  case (Tick tk)
  with assms show ?thesis by (simp add: step_def loop_body_queue_ok)
next
  case (Worker ts)
  with assms show ?thesis by (simp add: step_def worker_queue_ok)
next
  case Signal
  with assms show ?thesis by (simp add: step_def queue_ok_def)
qed

lemma run_loop_queue_ok: "queue_ok s \<Longrightarrow> queue_ok (snd (run_loop cv I s evs))"
proof (induction evs arbitrary: s)
  case Nil
  then show ?case by simp
next
  case (Cons ev evs)
  obtain x s' where st: "step cv I s ev = (x, s')" by (cases "step cv I s ev")
  from Cons.prems have "queue_ok (snd (step cv I s ev))" by (rule step_queue_ok)
  with st have ok': "queue_ok s'" by simp
  show ?case
  proof (cases x)
    case None
    from ok' have "queue_ok (snd (run_loop cv I s' evs))" by (rule Cons.IH)
    with st None Cons.prems show ?thesis by simp
  next
    case (Some e)
    with st ok' Cons.prems show ?thesis by simp
  qed
qed

lemma stop_queue_ok: "queue_ok s \<Longrightarrow> queue_ok (stop s)"
  by (simp add: queue_ok_def stop_def)

lemma start_queue_ok:
  assumes "queue_ok s"
  shows "queue_ok (outcome_state (start cv I opens s evs))"
proof (cases opens)
  case False
  with assms show ?thesis by (simp add: start_def camera_start_def Let_def queue_ok_def)
next
  case True
  let ?s3 = "s\<lparr>camera := (camera s)\<lparr>cap := Some True\<rparr>, trace := trace s @ [CameraStart],
      running := True, trace := (trace s @ [CameraStart]) @ [SetupSignalHandlers],
      analysis_thread := Some (),
      trace := ((trace s @ [CameraStart]) @ [SetupSignalHandlers]) @ [ThreadStart],
      trace := (((trace s @ [CameraStart]) @ [SetupSignalHandlers]) @ [ThreadStart]) @ [RunLoop]\<rparr>"
  from assms have "queue_ok ?s3" by (simp add: queue_ok_def)
  then have r: "queue_ok (snd (run_loop cv I ?s3 evs))" by (rule run_loop_queue_ok)
  obtain x sf where xs: "run_loop cv I ?s3 evs = (x, sf)" by (cases "run_loop cv I ?s3 evs")
  with r have "queue_ok sf" by simp
  then have "queue_ok (stop sf)" by (rule stop_queue_ok)
  with \<open>queue_ok sf\<close> xs True show ?thesis
    by (simp add: start_def camera_start_def Let_def split: option.splits)
qed

lemma queue_frame_effect:
  "(queued_times (trace (queue_frame I s f t m)) = queued_times (trace s)
      \<and> last_analysis_time (queue_frame I s f t m) = last_analysis_time s)
   \<or> (queued_times (trace (queue_frame I s f t m)) = queued_times (trace s) @ [t]
      \<and> last_analysis_time (queue_frame I s f t m) = t
      \<and> I \<le> t - last_analysis_time s)"
  by (auto simp add: queue_frame_def should_queue_def queued_times_append split: sum.splits)

lemma loop_body_effect:
  "(queued_times (trace (snd (loop_body cv I s tk))) = queued_times (trace s)
      \<and> last_analysis_time (snd (loop_body cv I s tk)) = last_analysis_time s)
   \<or> (queued_times (trace (snd (loop_body cv I s tk))) = queued_times (trace s) @ [time_now tk]
      \<and> last_analysis_time (snd (loop_body cv I s tk)) = time_now tk
      \<and> I \<le> time_now tk - last_analysis_time s)"
proof (cases rule: loop_body_cases [of cv I s tk])
  case no_frame
  then show ?thesis by (simp add: queued_times_append)
next
  case (raised e)
  then show ?thesis by (simp add: queued_times_append)
next
  case (checked f v s2)
  let ?s1 = "s\<lparr>trace := trace s @ [CaptureFrame], previous_frame := Some (cvtColor cv f)\<rparr>"
  have q1: "queued_times (trace ?s1) = queued_times (trace s)"
    and l1: "last_analysis_time ?s1 = last_analysis_time s"
    by (simp_all add: queued_times_append)
  from checked(2)
  have q': "queued_times (trace (snd (loop_body cv I s tk))) = queued_times (trace s2)"
    and l': "last_analysis_time (snd (loop_body cv I s tk)) = last_analysis_time s2"
    by auto
  from queue_frame_effect [of I ?s1 f "time_now tk" v] show ?thesis
    unfolding q' l' checked(1) q1 l1 .
qed

lemma worker_effect:
  "queued_times (trace (analysis_worker_body s ts)) = queued_times (trace s)
   \<and> last_analysis_time (analysis_worker_body s ts) = last_analysis_time s"
  by (auto simp add: analysis_worker_body_def queue_get_def Let_def split: list.splits prod.splits)

lemma step_effect:
  "(queued_times (trace (snd (step cv I s ev))) = queued_times (trace s)
      \<and> last_analysis_time (snd (step cv I s ev)) = last_analysis_time s)
   \<or> (\<exists>tk. ev = Tick tk
      \<and> queued_times (trace (snd (step cv I s ev))) = queued_times (trace s) @ [time_now tk]
      \<and> last_analysis_time (snd (step cv I s ev)) = time_now tk
      \<and> I \<le> time_now tk - last_analysis_time s)"
proof (cases ev)
  case (Tick tk)
  with loop_body_effect [of cv I s tk] show ?thesis by (auto simp add: step_def)
next
  case (Worker ts)
  with worker_effect [of s ts] show ?thesis by (auto simp add: step_def)
next
  case Signal
  then show ?thesis by (auto simp add: step_def)
qed

lemma sorted_le_last: "sorted xs \<Longrightarrow> x \<in> set xs \<Longrightarrow> x \<le> last (xs :: real list)"
  by (induction xs) auto

lemma pacing_step:
  assumes p: "pacing I s"
    and clock: "\<forall>q\<in>set (queued_times (trace s)). \<forall>t\<in>set (tick_times [ev]). q \<le> t"
  shows "pacing I (snd (step cv I s ev))"
proof -
  let ?s' = "snd (step cv I s ev)"
  from step_effect [of cv I s ev] consider
    (same) "queued_times (trace ?s') = queued_times (trace s)"
           "last_analysis_time ?s' = last_analysis_time s"
    | (queued) tk where "ev = Tick tk"
           "queued_times (trace ?s') = queued_times (trace s) @ [time_now tk]"
           "last_analysis_time ?s' = time_now tk"
           "I \<le> time_now tk - last_analysis_time s"
    by blast
  then show ?thesis
  proof cases
    case same
    with p show ?thesis by (simp add: pacing_def)
  next
    case queued
    let ?qs = "queued_times (trace s)"
    let ?t = "time_now tk"
    from clock queued(1) have le: "\<forall>q\<in>set ?qs. q \<le> ?t" by simp
    have gap: "\<forall>q\<in>set ?qs. I \<le> ?t - q"
    proof
      fix q assume q: "q \<in> set ?qs"
      then have ne: "?qs \<noteq> []" by auto
      with p have l: "last_analysis_time s = last ?qs" by (simp add: pacing_def)
      from p have "sorted ?qs" by (simp add: pacing_def)
      from this q have "q \<le> last ?qs" by (rule sorted_le_last)
      with queued(4) l show "I \<le> ?t - q" by simp
    qed
    from p le gap show ?thesis
      by (simp add: pacing_def queued(2,3) sorted_append sorted_wrt_append)
  qed
qed

lemma tick_times_Cons: "tick_times (ev # evs) = tick_times [ev] @ tick_times evs"
  by (cases ev) simp_all

lemma run_loop_pacing:
  assumes "sorted (tick_times evs)" and "pacing I s"
    and "\<forall>q\<in>set (queued_times (trace s)). \<forall>t\<in>set (tick_times evs). q \<le> t"
  shows "pacing I (snd (run_loop cv I s evs))"
  using assms
proof (induction evs arbitrary: s)
  case Nil
  then show ?case by simp
next
  case (Cons ev evs)
  show ?case
  proof (cases "running s")
    case False
    with Cons.prems(2) show ?thesis by simp
  next
    case True
    obtain x s' where st: "step cv I s ev = (x, s')" by (cases "step cv I s ev")
    then have s': "s' = snd (step cv I s ev)" by simp
    from Cons.prems(1) have sorted_all: "sorted (tick_times [ev] @ tick_times evs)"
      by (simp add: tick_times_Cons [of ev evs])
    then have sorted_rest: "sorted (tick_times evs)" by (simp add: sorted_append)
    from Cons.prems(3)
    have now: "\<forall>q\<in>set (queued_times (trace s)). \<forall>t\<in>set (tick_times [ev]). q \<le> t"
      and later: "\<forall>q\<in>set (queued_times (trace s)). \<forall>t\<in>set (tick_times evs). q \<le> t"
      by (simp_all add: tick_times_Cons [of ev evs])
    from Cons.prems(2) now have p': "pacing I s'" unfolding s' by (rule pacing_step)
    show ?thesis
    proof (cases x)
      case (Some e)
      with True st p' show ?thesis by simp
    next
      case None
      have clock': "\<forall>q\<in>set (queued_times (trace s')). \<forall>t\<in>set (tick_times evs). q \<le> t"
      proof -
        from step_effect [of cv I s ev] consider
          (same) "queued_times (trace s') = queued_times (trace s)"
          | (queued) tk where "ev = Tick tk"
              "queued_times (trace s') = queued_times (trace s) @ [time_now tk]"
          unfolding s' by blast
        then show ?thesis
        proof cases
          case same
          with later show ?thesis by simp
        next
          case queued
          from sorted_all queued(1) have "\<forall>t\<in>set (tick_times evs). time_now tk \<le> t"
            by simp
          with later queued(2) show ?thesis by simp
        qed
      qed
      from sorted_rest p' clock' have "pacing I (snd (run_loop cv I s' evs))"
        by (rule Cons.IH)
      with True st None show ?thesis by simp
    qed
  qed
qed

lemma start_pacing:
  assumes "sorted (tick_times evs)" and "queued_times (trace s) = []"
  shows "pacing I (outcome_state (start cv I opens s evs))"
proof (cases opens)
  case False
  with assms(2) show ?thesis
    by (simp add: start_def camera_start_def Let_def pacing_def queued_times_append)
next
  case True
  let ?s3 = "s\<lparr>camera := (camera s)\<lparr>cap := Some True\<rparr>, trace := trace s @ [CameraStart],
      running := True, trace := (trace s @ [CameraStart]) @ [SetupSignalHandlers],
      analysis_thread := Some (),
      trace := ((trace s @ [CameraStart]) @ [SetupSignalHandlers]) @ [ThreadStart],
      trace := (((trace s @ [CameraStart]) @ [SetupSignalHandlers]) @ [ThreadStart]) @ [RunLoop]\<rparr>"
  from assms(2) have q3: "queued_times (trace ?s3) = []" by (simp add: queued_times_append)
  then have "pacing I ?s3" by (simp add: pacing_def)
  moreover from q3
  have "\<forall>q\<in>set (queued_times (trace ?s3)). \<forall>t\<in>set (tick_times evs). q \<le> t" by simp
  ultimately have r: "pacing I (snd (run_loop cv I ?s3 evs))"
    using assms(1) run_loop_pacing by blast
  obtain x sf where xs: "run_loop cv I ?s3 evs = (x, sf)" by (cases "run_loop cv I ?s3 evs")
  with r have "pacing I sf" by simp
  then have "pacing I (stop sf)" by (simp add: pacing_def stop_def queued_times_append)
  with \<open>pacing I sf\<close> xs True show ?thesis
    by (simp add: start_def camera_start_def Let_def split: option.splits)
qed

subsection \<open>The example run\<close>

lemmas run_defs = start_def camera_start_def Let_def idle_system_def SurveillanceSystem_def
      Camera_def Queue_def step_def loop_body_def capture_frame_def detect_motion_def
      cvt_example find_example absdiff_dark_bright absdiff_bright_dark bright_motion_area
      queue_frame_def should_queue_def put_nowait_def

lemmas example_run_defs = motion_run_def run_defs

lemma full_run_queue:
  "analysis_queue (motion_run [2, 4, 6, 8, 10, 12, 14, 16, 18, 20]) =
     \<lparr> maxsize = 10,
       items = [(dark, 2), (bright, 4), (dark, 6), (bright, 8), (dark, 10), (bright, 12),
                (dark, 14), (bright, 16), (dark, 18), (bright, 20)] \<rparr>"
  by (simp add: example_run_defs)

lemma full_run_last: "last_analysis_time (motion_run [2, 4, 6, 8, 10, 12, 14, 16, 18, 20]) = 20"
  by (simp add: example_run_defs)

lemma overfull_run_queue:
  "analysis_queue (motion_run [2, 4, 6, 8, 10, 12, 14, 16, 18, 20, 22]) =
     analysis_queue (motion_run [2, 4, 6, 8, 10, 12, 14, 16, 18, 20])"
  by (simp add: example_run_defs)

lemma overfull_run_trace:
  "queued_times (trace (motion_run [2, 4, 6, 8, 10, 12, 14, 16, 18, 20, 22]))
     = [2, 4, 6, 8, 10, 12, 14, 16, 18, 20]
   \<and> last (trace (motion_run [2, 4, 6, 8, 10, 12, 14, 16, 18, 20, 22])) = QueueFullWarning"
  by (simp add: example_run_defs)

lemma put_nowait_full:
  "maxsize q = 10 \<Longrightarrow> length (items q) = 10 \<Longrightarrow> put_nowait q x = Inl Full"
  by (simp add: put_nowait_def)

lemma idle_last: "last_analysis_time idle_system = 0"
  by (simp add: idle_system_def SurveillanceSystem_def)

lemma idle_put:
  "put_nowait (analysis_queue idle_system) (dark, 3) = Inr \<lparr> maxsize = 10, items = [(dark, 3)] \<rparr>"
  by (simp add: idle_system_def SurveillanceSystem_def Queue_def put_nowait_def)

lemma ticks_sorted:
  "sorted (tick_times (motion_ticks dark bright [2, 4, 6, 8, 10, 12, 14, 16, 18, 20, 22]))"
  by simp

lemma overfull_run_last:
  "last_analysis_time (motion_run [2, 4, 6, 8, 10, 12, 14, 16, 18, 20, 22]) = 20"
  by (simp add: example_run_defs)

subsection \<open>The queueing decision\<close>

text \<open>
  Claim C3, as the code has it. The loop tries to queue a frame exactly when motion is
  present and the time since \<open>last_analysis_time\<close> is at least the interval. When
  \<open>put_nowait\<close> accepts the frame, \<open>last_analysis_time\<close> becomes the current time; when
  the queue is full the object is unchanged but for the warning, and when the loop does not
  try, \<open>last_analysis_time\<close> is unchanged. The loop tries whenever motion is present and
  more than the interval has passed since \<open>last_analysis_time\<close>. In every run of \<open>start\<close>
  whose clock does not go back, any two accepted frames are at least the interval apart,
  and \<open>last_analysis_time\<close> is the time of the latest accepted frame.
\<close>

theorem queueing_decision:
  "(should_queue I self m t \<longleftrightarrow> m \<and> I \<le> t - last_analysis_time self)
   \<and> (should_queue I self m t \<and> put_nowait (analysis_queue self) (frame, t) = Inr q \<longrightarrow>
        last_analysis_time (queue_frame I self frame t m) = t
        \<and> queued_times (trace (queue_frame I self frame t m)) = queued_times (trace self) @ [t])
   \<and> (should_queue I self m t \<and> put_nowait (analysis_queue self) (frame, t) = Inl e \<longrightarrow>
        queue_frame I self frame t m = self\<lparr>trace := trace self @ [QueueFullWarning]\<rparr>)
   \<and> (\<not> should_queue I self m t \<longrightarrow>
        last_analysis_time (queue_frame I self frame t m) = last_analysis_time self
        \<and> queued_times (trace (queue_frame I self frame t m)) = queued_times (trace self))
   \<and> (m \<and> I < t - last_analysis_time self \<longrightarrow> should_queue I self m t)
   \<and> (sorted (tick_times evs) \<longrightarrow>
        sorted_wrt (\<lambda>a b. I \<le> b - a)
          (queued_times (trace (outcome_state (start cv I opens (SurveillanceSystem c i p) evs))))
        \<and> (queued_times (trace (outcome_state (start cv I opens (SurveillanceSystem c i p) evs))) \<noteq> [] \<longrightarrow>
             last_analysis_time (outcome_state (start cv I opens (SurveillanceSystem c i p) evs))
               = last (queued_times (trace (outcome_state (start cv I opens (SurveillanceSystem c i p) evs))))))"
proof -
  have a: "should_queue I self m t \<longleftrightarrow> m \<and> I \<le> t - last_analysis_time self"
    by (simp add: should_queue_def)
  have b: "should_queue I self m t \<and> put_nowait (analysis_queue self) (frame, t) = Inr q \<longrightarrow>
        last_analysis_time (queue_frame I self frame t m) = t
        \<and> queued_times (trace (queue_frame I self frame t m)) = queued_times (trace self) @ [t]"
    by (simp add: queue_frame_def queued_times_append)
  have c: "should_queue I self m t \<and> put_nowait (analysis_queue self) (frame, t) = Inl e \<longrightarrow>
        queue_frame I self frame t m = self\<lparr>trace := trace self @ [QueueFullWarning]\<rparr>"
    by (simp add: queue_frame_def)
  have d: "\<not> should_queue I self m t \<longrightarrow>
        last_analysis_time (queue_frame I self frame t m) = last_analysis_time self
        \<and> queued_times (trace (queue_frame I self frame t m)) = queued_times (trace self)"
    by (simp add: queue_frame_def)
  have e: "m \<and> I < t - last_analysis_time self \<longrightarrow> should_queue I self m t"
    by (simp add: should_queue_def)
  have f: "sorted_wrt (\<lambda>a b. I \<le> b - a)
          (queued_times (trace (outcome_state (start cv I opens (SurveillanceSystem c i p) evs))))
        \<and> (queued_times (trace (outcome_state (start cv I opens (SurveillanceSystem c i p) evs))) \<noteq> [] \<longrightarrow>
             last_analysis_time (outcome_state (start cv I opens (SurveillanceSystem c i p) evs))
               = last (queued_times (trace (outcome_state (start cv I opens (SurveillanceSystem c i p) evs)))))"
    if "sorted (tick_times evs)"
  proof -
    have "queued_times (trace (SurveillanceSystem c i p)) = []"
      by (simp add: SurveillanceSystem_def)
    with that have "pacing I (outcome_state (start cv I opens (SurveillanceSystem c i p) evs))"
      by (rule start_pacing)
    then show ?thesis by (simp add: pacing_def)
  qed
  from a b c d e f show ?thesis by blast
qed

text \<open>
  An empty queue accepts a frame at time 3; the queue filled by ten frames refuses the
  frame at time 22; at time 1 the interval has not passed; and in the run over eleven
  frames two seconds apart the accepted ones are spaced by the interval.
\<close>

theorem queueing_decision_witness:
  "should_queue 2 idle_system True 3
   \<and> put_nowait (analysis_queue idle_system) (dark, 3) = Inr \<lparr> maxsize = 10, items = [(dark, 3)] \<rparr>
   \<and> last_analysis_time (queue_frame 2 idle_system dark 3 True) = 3
   \<and> 2 < 3 - last_analysis_time idle_system
   \<and> should_queue 2 (motion_run [2, 4, 6, 8, 10, 12, 14, 16, 18, 20]) True 22
   \<and> put_nowait (analysis_queue (motion_run [2, 4, 6, 8, 10, 12, 14, 16, 18, 20])) (dark, 22)
       = Inl Full
   \<and> queue_frame 2 (motion_run [2, 4, 6, 8, 10, 12, 14, 16, 18, 20]) dark 22 True
       = (motion_run [2, 4, 6, 8, 10, 12, 14, 16, 18, 20])
           \<lparr>trace := trace (motion_run [2, 4, 6, 8, 10, 12, 14, 16, 18, 20]) @ [QueueFullWarning]\<rparr>
   \<and> \<not> should_queue 2 idle_system True 1
   \<and> last_analysis_time (queue_frame 2 idle_system dark 1 True) = last_analysis_time idle_system
   \<and> sorted (tick_times (motion_ticks dark bright [2, 4, 6, 8, 10, 12, 14, 16, 18, 20, 22]))
   \<and> sorted_wrt (\<lambda>a b. 2 \<le> b - a)
        (queued_times (trace (motion_run [2, 4, 6, 8, 10, 12, 14, 16, 18, 20, 22])))
   \<and> queued_times (trace (motion_run [2, 4, 6, 8, 10, 12, 14, 16, 18, 20, 22])) \<noteq> []
   \<and> last_analysis_time (motion_run [2, 4, 6, 8, 10, 12, 14, 16, 18, 20, 22])
       = last (queued_times (trace (motion_run [2, 4, 6, 8, 10, 12, 14, 16, 18, 20, 22])))"
proof -
  let ?full = "motion_run [2, 4, 6, 8, 10, 12, 14, 16, 18, 20]"
  let ?ticks = "motion_ticks dark bright [2, 4, 6, 8, 10, 12, 14, 16, 18, 20, 22]"
  have a1: "should_queue 2 idle_system True 3" by (simp add: should_queue_def idle_last)
  have a4: "2 < 3 - last_analysis_time idle_system" by (simp add: idle_last)
  have b1: "should_queue 2 ?full True 22" by (simp add: should_queue_def full_run_last)
  have b2: "put_nowait (analysis_queue ?full) (dark, 22) = Inl Full"
    by (simp add: put_nowait_full full_run_queue)
  have c1: "\<not> should_queue 2 idle_system True 1" by (simp add: should_queue_def idle_last)
  have q: "queued_times (trace (motion_run [2, 4, 6, 8, 10, 12, 14, 16, 18, 20, 22])) \<noteq> []"
    using overfull_run_trace by simp
  note accept = queueing_decision [of 2 idle_system True 3 dark
      "\<lparr> maxsize = 10, items = [(dark, 3)] \<rparr>" Full ?ticks example_cv2 True "fixed_client [] []" 0 True]
  note full = queueing_decision [of 2 ?full True 22 dark
      "\<lparr> maxsize = 10, items = [] \<rparr>" Full ?ticks example_cv2 True "fixed_client [] []" 0 True]
  note early = queueing_decision [of 2 idle_system True 1 dark
      "\<lparr> maxsize = 10, items = [] \<rparr>" Full ?ticks example_cv2 True "fixed_client [] []" 0 True]
  from accept a1 idle_put
  have a3: "last_analysis_time (queue_frame 2 idle_system dark 3 True) = 3" by blast
  from full b1 b2
  have b3: "queue_frame 2 ?full dark 22 True = ?full\<lparr>trace := trace ?full @ [QueueFullWarning]\<rparr>"
    by blast
  from early c1
  have c2: "last_analysis_time (queue_frame 2 idle_system dark 1 True)
      = last_analysis_time idle_system"
    by blast
  from accept ticks_sorted
  have "sorted_wrt (\<lambda>a b. 2 \<le> b - a)
          (queued_times (trace (outcome_state
             (start example_cv2 2 True (SurveillanceSystem (fixed_client [] []) 0 True) ?ticks))))"
    by blast
  then have d1: "sorted_wrt (\<lambda>a b. 2 \<le> b - a)
        (queued_times (trace (motion_run [2, 4, 6, 8, 10, 12, 14, 16, 18, 20, 22])))"
    by (simp only: motion_run_def idle_system_def)
  have d2: "last_analysis_time (motion_run [2, 4, 6, 8, 10, 12, 14, 16, 18, 20, 22])
       = last (queued_times (trace (motion_run [2, 4, 6, 8, 10, 12, 14, 16, 18, 20, 22])))"
    using overfull_run_trace overfull_run_last by simp
  from a1 idle_put a3 a4 b1 b2 b3 c1 c2 ticks_sorted d1 q d2 show ?thesis by blast
qed

text \<open>
  When the queue is full, the condition holds at time 22 and \<open>last_analysis_time\<close> stays
  at 20, so that the condition holds again three hundredths of a second later.
\<close>

theorem queueing_full_queue_counterexample:
  "should_queue 2 (motion_run [2, 4, 6, 8, 10, 12, 14, 16, 18, 20]) True 22
   \<and> last_analysis_time (queue_frame 2 (motion_run [2, 4, 6, 8, 10, 12, 14, 16, 18, 20]) dark 22 True)
       = 20
   \<and> should_queue 2 (queue_frame 2 (motion_run [2, 4, 6, 8, 10, 12, 14, 16, 18, 20]) dark 22 True)
       True (2203 / 100)"
proof -
  have s: "should_queue 2 (motion_run [2, 4, 6, 8, 10, 12, 14, 16, 18, 20]) True 22"
    by (simp add: should_queue_def full_run_last)
  have f: "put_nowait (analysis_queue (motion_run [2, 4, 6, 8, 10, 12, 14, 16, 18, 20])) (dark, 22)
       = Inl Full"
    by (simp add: put_nowait_full full_run_queue)
  have l: "last_analysis_time (queue_frame 2 (motion_run [2, 4, 6, 8, 10, 12, 14, 16, 18, 20]) dark 22 True)
       = 20"
    using s f by (simp add: queue_frame_def full_run_last)
  have s2: "should_queue 2 (queue_frame 2 (motion_run [2, 4, 6, 8, 10, 12, 14, 16, 18, 20]) dark 22 True)
       True (2203 / 100)"
    by (simp add: should_queue_def l)
  from s l s2 show ?thesis by blast
qed

subsection \<open>The bounded queue\<close>

text \<open>
  Claim C4. The queue is created with capacity ten, and after any run of \<open>start\<close>, over
  any events of the capture loop, the worker and the signal handler, it holds at most ten
  tasks. When it holds ten, \<open>put_nowait\<close> raises \<open>Full\<close> and the queueing step leaves the
  queue as it is.
\<close>

theorem queue_never_exceeds_capacity:
  "maxsize (analysis_queue (SurveillanceSystem c i p)) = 10
   \<and> length (items (analysis_queue
        (outcome_state (start cv I opens (SurveillanceSystem c i p) evs)))) \<le> 10
   \<and> (maxsize (analysis_queue self) = 10 \<and> length (items (analysis_queue self)) = 10 \<longrightarrow>
        put_nowait (analysis_queue self) task = Inl Full
        \<and> analysis_queue (queue_frame I self frame t m) = analysis_queue self)"
proof -
  have init: "queue_ok (SurveillanceSystem c i p)"
    by (simp add: queue_ok_def SurveillanceSystem_def Queue_def)
  then have "queue_ok (outcome_state (start cv I opens (SurveillanceSystem c i p) evs))"
    by (rule start_queue_ok)
  then have run: "length (items (analysis_queue
        (outcome_state (start cv I opens (SurveillanceSystem c i p) evs)))) \<le> 10"
    by (simp add: queue_ok_def)
  have full: "put_nowait (analysis_queue self) task = Inl Full
        \<and> analysis_queue (queue_frame I self frame t m) = analysis_queue self"
    if "maxsize (analysis_queue self) = 10" and "length (items (analysis_queue self)) = 10"
    using that by (simp add: queue_frame_def put_nowait_full)
  from init run full show ?thesis by (simp add: queue_ok_def)
qed

text \<open>
  Eleven frames with motion, two seconds apart, and no worker iteration: the first ten are
  in the queue, and the eleventh is refused with a warning.
\<close>

theorem queue_never_exceeds_capacity_witness:
  "maxsize (analysis_queue (motion_run [2, 4, 6, 8, 10, 12, 14, 16, 18, 20])) = 10
   \<and> length (items (analysis_queue (motion_run [2, 4, 6, 8, 10, 12, 14, 16, 18, 20]))) = 10
   \<and> put_nowait (analysis_queue (motion_run [2, 4, 6, 8, 10, 12, 14, 16, 18, 20])) (dark, 22)
       = Inl Full
   \<and> analysis_queue (queue_frame 2 (motion_run [2, 4, 6, 8, 10, 12, 14, 16, 18, 20]) dark 22 True)
       = analysis_queue (motion_run [2, 4, 6, 8, 10, 12, 14, 16, 18, 20])
   \<and> items (analysis_queue (motion_run [2, 4, 6, 8, 10, 12, 14, 16, 18, 20, 22]))
       = [(dark, 2), (bright, 4), (dark, 6), (bright, 8), (dark, 10), (bright, 12),
          (dark, 14), (bright, 16), (dark, 18), (bright, 20)]
   \<and> last (trace (motion_run [2, 4, 6, 8, 10, 12, 14, 16, 18, 20, 22])) = QueueFullWarning"
proof -
  have h1: "maxsize (analysis_queue (motion_run [2, 4, 6, 8, 10, 12, 14, 16, 18, 20])) = 10"
    by (simp add: full_run_queue)
  have h2: "length (items (analysis_queue (motion_run [2, 4, 6, 8, 10, 12, 14, 16, 18, 20]))) = 10"
    by (simp add: full_run_queue)
  note inst = queue_never_exceeds_capacity [of "fixed_client [] []" 0 True example_cv2 2 True "[]"
      "motion_run [2, 4, 6, 8, 10, 12, 14, 16, 18, 20]" "(dark, 22)" dark 22 True]
  from inst [THEN conjunct2, THEN conjunct2] h1 h2
  have c: "put_nowait (analysis_queue (motion_run [2, 4, 6, 8, 10, 12, 14, 16, 18, 20])) (dark, 22)
       = Inl Full
   \<and> analysis_queue (queue_frame 2 (motion_run [2, 4, 6, 8, 10, 12, 14, 16, 18, 20]) dark 22 True)
       = analysis_queue (motion_run [2, 4, 6, 8, 10, 12, 14, 16, 18, 20])"
    by blast
  have e: "items (analysis_queue (motion_run [2, 4, 6, 8, 10, 12, 14, 16, 18, 20, 22]))
       = [(dark, 2), (bright, 4), (dark, 6), (bright, 8), (dark, 10), (bright, 12),
          (dark, 14), (bright, 16), (dark, 18), (bright, 20)]"
    by (simp add: overfull_run_queue full_run_queue)
  from h1 h2 c e overfull_run_trace show ?thesis by blast
qed

section \<open>Start-up\<close>

text \<open>
  Claim C10. When the camera does not open, \<open>start\<close> returns after \<open>Camera.start\<close>: of the
  object only the camera's capture handle and the record of calls change. Started on a
  new object, \<open>running\<close> is still false, no worker thread exists, and the only call made
  is the one that starts the camera, whatever events follow.
\<close>

theorem camera_failure_start_returns:
  "start cv I False self evs =
     Returned (self\<lparr>camera := (camera self)\<lparr>cap := Some False\<rparr>,
                    trace := trace self @ [CameraStart]\<rparr>)
   \<and> \<not> running (outcome_state (start cv I False (SurveillanceSystem c i p) evs))
   \<and> analysis_thread (outcome_state (start cv I False (SurveillanceSystem c i p) evs)) = None
   \<and> trace (outcome_state (start cv I False (SurveillanceSystem c i p) evs)) = [CameraStart]
   \<and> cap (Camera i) = None
   \<and> camera_start False (Camera i) = (False, (Camera i)\<lparr>cap := Some False\<rparr>)"
  by (simp add: start_def camera_start_def Let_def SurveillanceSystem_def Camera_def)

text \<open>
  The same object and frames, once with a camera that does not open and once with one that
  does.
\<close>

theorem camera_failure_start_returns_witness:
  "start example_cv2 2 False idle_system (motion_ticks dark bright [2, 4]) =
     Returned (idle_system\<lparr>camera := (camera idle_system)\<lparr>cap := Some False\<rparr>,
                           trace := trace idle_system @ [CameraStart]\<rparr>)
   \<and> \<not> running (outcome_state (start example_cv2 2 False idle_system (motion_ticks dark bright [2, 4])))
   \<and> analysis_thread (outcome_state (start example_cv2 2 False idle_system (motion_ticks dark bright [2, 4])))
       = None
   \<and> trace (outcome_state (start example_cv2 2 False idle_system (motion_ticks dark bright [2, 4])))
       = [CameraStart]
   \<and> running (motion_run [2, 4])
   \<and> analysis_thread (motion_run [2, 4]) = Some ()
   \<and> trace (motion_run [2, 4])
       = [CameraStart, SetupSignalHandlers, ThreadStart, RunLoop,
          CaptureFrame, Queued 2, CaptureFrame, Queued 4]"
proof -
  note inst = camera_failure_start_returns [of example_cv2 2
      "SurveillanceSystem (fixed_client [] []) 0 True"
      "motion_ticks dark bright [2, 4]" "fixed_client [] []" 0 True]
  have r: "running (motion_run [2, 4])
   \<and> analysis_thread (motion_run [2, 4]) = Some ()
   \<and> trace (motion_run [2, 4])
       = [CameraStart, SetupSignalHandlers, ThreadStart, RunLoop,
          CaptureFrame, Queued 2, CaptureFrame, Queued 4]"
    by (simp add: example_run_defs)
  from inst r show ?thesis unfolding idle_system_def by blast
qed

end
